theory Spec2Isabelle
  imports Complex_Main "HOL-Library.Word"
begin

section \<open>JavaScript numbers\<close>

text \<open>
  The algorithms of \<^verbatim>\<open>binarizationAlgorithms.ts\<close> compute with JavaScript numbers.
  A number is a finite value, one of the two infinities, or NaN. The operations below
  are the exact ones on finite values (the sign of zero is not modelled: a zero divisor
  counts as +0) and show how NaN and the infinities arise (division by zero, square root
  of a negative value) and how they propagate through arithmetic, \<^verbatim>\<open>Math.max\<close>,
  \<^verbatim>\<open>Math.min\<close> and comparison. The rounding of IEEE-754 doubles is a separate step,
  \<open>round64\<close> below. It is applied where a result is decided by the last bit: in the
  luminance, which the store into the grayscale buffer rounds at one half, and in the
  between-class variance of Otsu's search, which is compared for a strict maximum. The
  window statistics and the threshold formulas of the local algorithms are modelled in
  exact arithmetic.
\<close>

datatype number = Num real | NaN | PosInfinity | NegInfinity

fun num_neg :: "number \<Rightarrow> number" where
  "num_neg (Num a) = Num (- a)"
| "num_neg NaN = NaN"
| "num_neg PosInfinity = NegInfinity"
| "num_neg NegInfinity = PosInfinity"

fun num_add :: "number \<Rightarrow> number \<Rightarrow> number" where
  "num_add (Num a) (Num b) = Num (a + b)"
| "num_add NaN _ = NaN"
| "num_add _ NaN = NaN"
| "num_add PosInfinity NegInfinity = NaN"
| "num_add NegInfinity PosInfinity = NaN"
| "num_add PosInfinity _ = PosInfinity"
| "num_add _ PosInfinity = PosInfinity"
| "num_add NegInfinity _ = NegInfinity"
| "num_add _ NegInfinity = NegInfinity"

definition num_sub :: "number \<Rightarrow> number \<Rightarrow> number" where
  "num_sub a b = num_add a (num_neg b)"

text \<open>The sign of an infinite product or quotient: the infinity with the sign of \<open>s\<close>.\<close>

definition signed_infinity :: "bool \<Rightarrow> number" where
  "signed_infinity negative = (if negative then NegInfinity else PosInfinity)"

fun num_mul :: "number \<Rightarrow> number \<Rightarrow> number" where
  "num_mul (Num a) (Num b) = Num (a * b)"
| "num_mul NaN _ = NaN"
| "num_mul _ NaN = NaN"
| "num_mul (Num a) PosInfinity = (if a = 0 then NaN else signed_infinity (a < 0))"
| "num_mul (Num a) NegInfinity = (if a = 0 then NaN else signed_infinity (0 < a))"
| "num_mul PosInfinity (Num b) = (if b = 0 then NaN else signed_infinity (b < 0))"
| "num_mul NegInfinity (Num b) = (if b = 0 then NaN else signed_infinity (0 < b))"
| "num_mul PosInfinity PosInfinity = PosInfinity"
| "num_mul NegInfinity NegInfinity = PosInfinity"
| "num_mul PosInfinity NegInfinity = NegInfinity"
| "num_mul NegInfinity PosInfinity = NegInfinity"

fun num_div :: "number \<Rightarrow> number \<Rightarrow> number" where
  "num_div (Num a) (Num b) =
     (if b = 0 then (if a = 0 then NaN else signed_infinity (a < 0)) else Num (a / b))"
| "num_div NaN _ = NaN"
| "num_div _ NaN = NaN"
| "num_div (Num a) _ = Num 0"
| "num_div PosInfinity (Num b) = signed_infinity (b < 0)"
| "num_div NegInfinity (Num b) = signed_infinity (0 \<le> b)"
| "num_div PosInfinity PosInfinity = NaN"
| "num_div PosInfinity NegInfinity = NaN"
| "num_div NegInfinity PosInfinity = NaN"
| "num_div NegInfinity NegInfinity = NaN"

text \<open>\<^verbatim>\<open>Math.sqrt\<close>: NaN on a negative argument.\<close>

fun math_sqrt :: "number \<Rightarrow> number" where
  "math_sqrt (Num a) = (if a < 0 then NaN else Num (sqrt a))"
| "math_sqrt PosInfinity = PosInfinity"
| "math_sqrt _ = NaN"

text \<open>The comparison \<^verbatim>\<open>a > b\<close>: false as soon as one side is NaN.\<close>

fun num_gt :: "number \<Rightarrow> number \<Rightarrow> bool" where
  "num_gt (Num a) (Num b) = (b < a)"
| "num_gt NaN _ = False"
| "num_gt _ NaN = False"
| "num_gt PosInfinity b = (b \<noteq> PosInfinity)"
| "num_gt _ PosInfinity = False"
| "num_gt (Num a) NegInfinity = True"
| "num_gt NegInfinity _ = False"

text \<open>\<^verbatim>\<open>Math.max\<close> and \<^verbatim>\<open>Math.min\<close>: NaN as soon as one argument is NaN.\<close>

definition math_max :: "number \<Rightarrow> number \<Rightarrow> number" where
  "math_max a b = (if a = NaN \<or> b = NaN then NaN else if num_gt b a then b else a)"

definition math_min :: "number \<Rightarrow> number \<Rightarrow> number" where
  "math_min a b = (if a = NaN \<or> b = NaN then NaN else if num_gt a b then b else a)"

section \<open>Rounding to double precision\<close>

text \<open>
  A JavaScript number is an IEEE-754 double: 53 significant bits, exponents from
  \<open>-1022\<close> to \<open>1023\<close>, rounding to the nearest representable value with ties to the
  even significand. \<open>binade x\<close> is the exponent \<open>e\<close> with \<open>2^e \<le> |x| < 2^(e+1)\<close>; the
  representable values around \<open>x\<close> are the multiples of \<open>2^(max e (-1022) - 52)\<close>, and a
  result of magnitude \<open>2^1024\<close> or more is an infinity.
\<close>

definition binade :: "real \<Rightarrow> int" where
  "binade x = \<lfloor>log 2 \<bar>x\<bar>\<rfloor>"

definition roundTiesToEven :: "real \<Rightarrow> int" where
  "roundTiesToEven x =
     (let f = \<lfloor>x\<rfloor> in
      if x < real_of_int f + 1 / 2 then f
      else if real_of_int f + 1 / 2 < x then f + 1
      else if even f then f else f + 1)"

definition fl64 :: "real \<Rightarrow> number" where
  "fl64 x =
     (if x = 0 then Num 0
      else
        (let u = 2 powi (max (binade x) (- 1022) - 52);
             r = real_of_int (roundTiesToEven (x / u)) * u
         in if 2 ^ 1024 \<le> \<bar>r\<bar> then signed_infinity (x < 0) else Num r))"

fun round64 :: "number \<Rightarrow> number" where
  "round64 (Num x) = fl64 x"
| "round64 NaN = NaN"
| "round64 PosInfinity = PosInfinity"
| "round64 NegInfinity = NegInfinity"

text \<open>The arithmetic of doubles: the exact operation, then the rounding.\<close>

definition fl_add :: "number \<Rightarrow> number \<Rightarrow> number" where
  "fl_add a b = round64 (num_add a b)"

definition fl_sub :: "number \<Rightarrow> number \<Rightarrow> number" where
  "fl_sub a b = round64 (num_sub a b)"

definition fl_mul :: "number \<Rightarrow> number \<Rightarrow> number" where
  "fl_mul a b = round64 (num_mul a b)"

definition fl_div :: "number \<Rightarrow> number \<Rightarrow> number" where
  "fl_div a b = round64 (num_div a b)"

section \<open>Images and typed arrays\<close>

text \<open>
  An \<^verbatim>\<open>ImageData\<close> has a width, a height and a \<^verbatim>\<open>Uint8ClampedArray\<close> of samples,
  four (R, G, B, A) per pixel. The elements of a \<^verbatim>\<open>Uint8ClampedArray\<close> are bytes.
\<close>

type_synonym byte = "8 word"

record ImageData =
  width :: nat
  height :: nat
  data :: "byte list"

text \<open>
  Reading a typed array at an index outside it gives \<^verbatim>\<open>undefined\<close>, which every use
  in this file converts to a number: NaN.
\<close>

definition typed_get :: "byte list \<Rightarrow> int \<Rightarrow> number" where
  "typed_get a i = (if 0 \<le> i \<and> i < int (length a) then Num (real (unat (a ! nat i))) else NaN)"

text \<open>
  Storing a number in a \<^verbatim>\<open>Uint8ClampedArray\<close> converts it (ToUint8Clamp of ECMAScript):
  NaN becomes 0, the value is clamped to 0..255 and rounded to the nearest integer, a tie
  going to the even neighbour. A store outside the array is ignored, as \<open>xs[i := v]\<close> is.
\<close>

definition toUint8Clamp :: "number \<Rightarrow> byte" where
  "toUint8Clamp v =
     (case v of
        NaN \<Rightarrow> 0
      | PosInfinity \<Rightarrow> 255
      | NegInfinity \<Rightarrow> 0
      | Num r \<Rightarrow>
          (let clamped = min (max r 0) 255; f = \<lfloor>clamped\<rfloor> in
           if clamped < real_of_int f + 1 / 2 then word_of_int f
           else if real_of_int f + 1 / 2 < clamped then word_of_int (f + 1)
           else if even f then word_of_int f else word_of_int (f + 1)))"

text \<open>
  \<^verbatim>\<open>new ImageData(width, height)\<close>: a zero-filled image; the constructor throws an
  \<^verbatim>\<open>IndexSizeError\<close> when the width or the height is 0. The model has no bound on
  memory: an allocation that an engine refuses for its size (a \<^verbatim>\<open>RangeError\<close> of
  \<^verbatim>\<open>new Uint8ClampedArray\<close> or \<^verbatim>\<open>new ImageData\<close>, at a limit that differs from engine
  to engine) is not modelled, so every result below is about sizes that the engine can
  allocate.
\<close>

datatype error = IndexSizeError

text \<open>
  Each exported algorithm is
  \<^verbatim>\<open>new Promise((resolve) => { setTimeout(() => { ...; resolve(result); }, 100); })\<close>.
  The body runs in the timer callback. When it reaches \<^verbatim>\<open>resolve(result)\<close> the promise
  is fulfilled with the result. When it throws, nothing catches the exception and the
  promise has no path to rejection: it never settles, and the caller receives neither a
  result nor an error.
\<close>

datatype 'a promise = Fulfilled 'a | NeverSettles error

definition inTimer :: "error + 'a \<Rightarrow> 'a promise" where
  "inTimer body = (case body of Inr result \<Rightarrow> Fulfilled result | Inl e \<Rightarrow> NeverSettles e)"

definition newImageData :: "nat \<Rightarrow> nat \<Rightarrow> error + ImageData" where
  "newImageData w h =
     (if w = 0 \<or> h = 0 then Inl IndexSizeError
      else Inr \<lparr>width = w, height = h, data = replicate (w * h * 4) 0\<rparr>)"

section \<open>Grayscale conversion\<close>

text \<open>
  \<^verbatim>\<open>const gray = 0.299 * r + 0.587 * g + 0.114 * b;\<close> for the pixel whose samples start
  at \<open>i\<close>, in double precision: each literal is the double nearest to it, and each of the
  three products and two sums is rounded.
\<close>

definition luminance :: "byte list \<Rightarrow> nat \<Rightarrow> number" where
  "luminance d i =
     (let r = typed_get d (int i);
          g = typed_get d (int i + 1);
          b = typed_get d (int i + 2)
      in fl_add (fl_add (fl_mul (fl64 (299 / 1000)) r) (fl_mul (fl64 (587 / 1000)) g))
           (fl_mul (fl64 (114 / 1000)) b))"

text \<open>
  The loop \<^verbatim>\<open>for (let i = 0; i < data.length; i += 4) { ...; grayscale[i / 4] = gray; }\<close>
  of \<^verbatim>\<open>toGrayscale\<close>; \<open>i\<close> is a multiple of 4 throughout.
\<close>

function toGrayscale_loop :: "byte list \<Rightarrow> nat \<Rightarrow> byte list \<Rightarrow> byte list" where
  "toGrayscale_loop d i grayscale =
     (if i < length d
      then toGrayscale_loop d (i + 4) (grayscale[i div 4 := toUint8Clamp (luminance d i)])
      else grayscale)"
  by pat_completeness auto
termination
  by (relation "measure (\<lambda>(d, i, grayscale). length d - i)") auto

declare toGrayscale_loop.simps [simp del]

definition toGrayscale :: "ImageData \<Rightarrow> byte list" where
  "toGrayscale imgData =
     toGrayscale_loop (data imgData) 0 (replicate (width imgData * height imgData) 0)"

section \<open>Writing output pixels\<close>

text \<open>
  Every algorithm ends a pixel with
  \<^verbatim>\<open>data[pixelIndex] = v; data[pixelIndex + 1] = v; data[pixelIndex + 2] = v; data[pixelIndex + 3] = 255;\<close>
\<close>

definition writePixel :: "byte list \<Rightarrow> nat \<Rightarrow> byte \<Rightarrow> byte list" where
  "writePixel d pixelIndex v =
     d[pixelIndex := v, pixelIndex + 1 := v, pixelIndex + 2 := v, pixelIndex + 3 := 255]"

text \<open>\<^verbatim>\<open>grayscale[idx] > threshold ? 255 : 0\<close>\<close>

definition pixelValue :: "byte list \<Rightarrow> nat \<Rightarrow> number \<Rightarrow> byte" where
  "pixelValue grayscale idx threshold =
     (if num_gt (typed_get grayscale (int idx)) threshold then 255 else 0)"

text \<open>
  The sweep \<^verbatim>\<open>for (y = 0; y < height; y++) for (x = 0; x < width; x++)\<close> that the seven
  local algorithms share: pixel \<open>(x, y)\<close> is written at \<open>pixelIndex = (y * width + x) * 4\<close>
  with the value the algorithm computes for it.
\<close>

definition pixelLoop :: "nat \<Rightarrow> nat \<Rightarrow> (nat \<Rightarrow> nat \<Rightarrow> byte) \<Rightarrow> byte list \<Rightarrow> byte list" where
  "pixelLoop w h val d =
     fold (\<lambda>y. fold (\<lambda>x d'. writePixel d' ((y * w + x) * 4) (val x y)) [0..<w]) [0..<h] d"

text \<open>\<^verbatim>\<open>applyThreshold\<close>, called by Otsu's method with a single number as threshold.\<close>

definition applyThreshold :: "byte list \<Rightarrow> number \<Rightarrow> nat \<Rightarrow> nat \<Rightarrow> error + ImageData" where
  "applyThreshold grayscale threshold w h =
     (case newImageData w h of
        Inl e \<Rightarrow> Inl e
      | Inr result \<Rightarrow>
          Inr (result\<lparr>data :=
            fold (\<lambda>i d'. writePixel d' (i * 4) (pixelValue grayscale i threshold))
              [0..<length grayscale] (data result)\<rparr>))"

section \<open>Local statistics\<close>

record LocalStats =
  mean :: number
  variance :: number
  stdDev :: number

text \<open>
  The window of \<^verbatim>\<open>calculateLocalStats\<close> (and of the same loops written out in Niblack's
  and Sauvola's functions): the indices \<open>wy * width + wx\<close> read, in the order of the two
  nested loops, for \<open>startY \<le> wy \<le> endY\<close> and \<open>startX \<le> wx \<le> endX\<close>.
\<close>

definition windowIndices :: "nat \<Rightarrow> nat \<Rightarrow> nat \<Rightarrow> nat \<Rightarrow> nat \<Rightarrow> int list" where
  "windowIndices x y w h halfWindow =
     (let startX = max 0 (int x - int halfWindow);
          endX = min (int w - 1) (int x + int halfWindow);
          startY = max 0 (int y - int halfWindow);
          endY = min (int h - 1) (int y + int halfWindow)
      in concat (map (\<lambda>wy. map (\<lambda>wx. wy * int w + wx) [startX..endX]) [startY..endY]))"

text \<open>One iteration: \<^verbatim>\<open>sum += pixel; squaredSum += pixel * pixel; count++;\<close>\<close>

definition accumulate :: "byte list \<Rightarrow> number \<times> number \<times> nat \<Rightarrow> int \<Rightarrow> number \<times> number \<times> nat" where
  "accumulate grayscale acc idx =
     (case acc of (sumv, squaredSum, cnt) \<Rightarrow>
        (let pixel = typed_get grayscale idx
         in (num_add sumv pixel, num_add squaredSum (num_mul pixel pixel), cnt + 1)))"

definition windowSums :: "byte list \<Rightarrow> nat \<Rightarrow> nat \<Rightarrow> nat \<Rightarrow> nat \<Rightarrow> nat \<Rightarrow> number \<times> number \<times> nat" where
  "windowSums grayscale x y w h halfWindow =
     foldl (accumulate grayscale) (Num 0, Num 0, 0) (windowIndices x y w h halfWindow)"

text \<open>
  \<^verbatim>\<open>const mean = sum / count; const variance = squaredSum / count - mean * mean;
  const stdDev = Math.sqrt(variance);\<close>
\<close>

definition statsOf :: "number \<times> number \<times> nat \<Rightarrow> LocalStats" where
  "statsOf acc =
     (case acc of (sumv, squaredSum, cnt) \<Rightarrow>
        (let m = num_div sumv (Num (real cnt));
             v = num_sub (num_div squaredSum (Num (real cnt))) (num_mul m m)
         in \<lparr>mean = m, variance = v, stdDev = math_sqrt v\<rparr>))"

definition calculateLocalStats :: "byte list \<Rightarrow> nat \<Rightarrow> nat \<Rightarrow> nat \<Rightarrow> nat \<Rightarrow> nat \<Rightarrow> LocalStats" where
  "calculateLocalStats grayscale x y w h wSize =
     statsOf (windowSums grayscale x y w h (wSize div 2))"

section \<open>Window size\<close>

text \<open>
  Every local algorithm starts with
  \<^verbatim>\<open>const windowSize = Math.max(3, Math.ceil(Math.min(width, height) / 30));\<close>
  on the non-negative integers \<^verbatim>\<open>width\<close> and \<^verbatim>\<open>height\<close> of the image.
\<close>

definition windowSize :: "nat \<Rightarrow> nat \<Rightarrow> nat" where
  "windowSize w h = max 3 (nat \<lceil>real (min w h) / 30\<rceil>)"

section \<open>The local algorithms\<close>

text \<open>
  Each local algorithm converts the image to grayscale, allocates the result with
  \<^verbatim>\<open>new ImageData(width, height)\<close> and sweeps the pixels, writing
  \<^verbatim>\<open>grayscale[y * width + x] > threshold ? 255 : 0\<close> for its own threshold, all of it
  inside the timer callback of its promise. The delay of the timer and the unused
  \<^verbatim>\<open>canvas\<close> argument carry no computation and are left out.
\<close>

definition thresholdSweep ::
    "byte list \<Rightarrow> nat \<Rightarrow> nat \<Rightarrow> (nat \<Rightarrow> nat \<Rightarrow> number) \<Rightarrow> error + ImageData" where
  "thresholdSweep grayscale w h threshold =
     (case newImageData w h of
        Inl e \<Rightarrow> Inl e
      | Inr result \<Rightarrow>
          Inr (result\<lparr>data :=
            pixelLoop w h (\<lambda>x y. pixelValue grayscale (y * w + x) (threshold x y))
              (data result)\<rparr>))"

text \<open>Niblack: \<^verbatim>\<open>const threshold = mean + k * stdDev;\<close> (statistics computed in line).\<close>

definition niblack_threshold :: "byte list \<Rightarrow> nat \<Rightarrow> nat \<Rightarrow> number \<Rightarrow> nat \<Rightarrow> nat \<Rightarrow> number" where
  "niblack_threshold grayscale w h k x y =
     (let halfWindow = windowSize w h div 2;
          st = statsOf (windowSums grayscale x y w h halfWindow)
      in num_add (mean st) (num_mul k (stdDev st)))"

definition niblackThreshold :: "ImageData \<Rightarrow> number \<Rightarrow> ImageData promise" where
  "niblackThreshold imgData k =
     (let grayscale = toGrayscale imgData; w = width imgData; h = height imgData
      in inTimer (thresholdSweep grayscale w h (niblack_threshold grayscale w h k)))"

text \<open>
  Sauvola: \<^verbatim>\<open>const threshold = mean * (1 + k * (stdDev / R - 1));\<close> with \<open>R = 128\<close>
  (statistics computed in line).
\<close>

definition sauvola_threshold :: "byte list \<Rightarrow> nat \<Rightarrow> nat \<Rightarrow> number \<Rightarrow> nat \<Rightarrow> nat \<Rightarrow> number" where
  "sauvola_threshold grayscale w h k x y =
     (let halfWindow = windowSize w h div 2;
          st = statsOf (windowSums grayscale x y w h halfWindow)
      in num_mul (mean st)
           (num_add (Num 1) (num_mul k (num_sub (num_div (stdDev st) (Num 128)) (Num 1)))))"

definition sauvolaThreshold :: "ImageData \<Rightarrow> number \<Rightarrow> ImageData promise" where
  "sauvolaThreshold imgData k =
     (let grayscale = toGrayscale imgData; w = width imgData; h = height imgData
      in inTimer (thresholdSweep grayscale w h (sauvola_threshold grayscale w h k)))"

text \<open>
  Wolf. The first pass finds the minimum sample and the maximum local standard deviation:
  \<^verbatim>\<open>minVal = Math.min(minVal, pixel); maxStdDev = Math.max(maxStdDev, stdDev);\<close>
  starting from 255 and 0. The second pass uses
  \<^verbatim>\<open>const threshold = mean - k * (1 - stdDev / maxStdDev) * (mean - minVal);\<close>
\<close>

definition wolfPrepass :: "byte list \<Rightarrow> nat \<Rightarrow> nat \<Rightarrow> number \<times> number" where
  "wolfPrepass grayscale w h =
     fold (\<lambda>y. fold (\<lambda>x acc.
         (case acc of (minVal, maxStdDev) \<Rightarrow>
           (math_min minVal (typed_get grayscale (int (y * w + x))),
            math_max maxStdDev
              (stdDev (calculateLocalStats grayscale x y w h (windowSize w h))))))
        [0..<w]) [0..<h] (Num 255, Num 0)"

definition wolf_threshold ::
    "byte list \<Rightarrow> nat \<Rightarrow> nat \<Rightarrow> number \<Rightarrow> number \<Rightarrow> number \<Rightarrow> nat \<Rightarrow> nat \<Rightarrow> number" where
  "wolf_threshold grayscale w h k minVal maxStdDev x y =
     (let st = calculateLocalStats grayscale x y w h (windowSize w h)
      in num_sub (mean st)
           (num_mul (num_mul k (num_sub (Num 1) (num_div (stdDev st) maxStdDev)))
              (num_sub (mean st) minVal)))"

definition wolfThreshold :: "ImageData \<Rightarrow> number \<Rightarrow> ImageData promise" where
  "wolfThreshold imgData k =
     (let grayscale = toGrayscale imgData; w = width imgData; h = height imgData
      in case wolfPrepass grayscale w h of
           (minVal, maxStdDev) \<Rightarrow>
             inTimer
               (thresholdSweep grayscale w h (wolf_threshold grayscale w h k minVal maxStdDev)))"

text \<open>NICK: \<^verbatim>\<open>const threshold = mean + k * Math.sqrt(variance + mean * mean);\<close>\<close>

definition nick_threshold :: "byte list \<Rightarrow> nat \<Rightarrow> nat \<Rightarrow> number \<Rightarrow> nat \<Rightarrow> nat \<Rightarrow> number" where
  "nick_threshold grayscale w h k x y =
     (let st = calculateLocalStats grayscale x y w h (windowSize w h)
      in num_add (mean st)
           (num_mul k (math_sqrt (num_add (variance st) (num_mul (mean st) (mean st))))))"

definition nickThreshold :: "ImageData \<Rightarrow> number \<Rightarrow> ImageData promise" where
  "nickThreshold imgData k =
     (let grayscale = toGrayscale imgData; w = width imgData; h = height imgData
      in inTimer (thresholdSweep grayscale w h (nick_threshold grayscale w h k)))"

text \<open>T.R. Singh: \<^verbatim>\<open>const threshold = mean * (1 + p * (stdDev / R - 1));\<close> with \<open>R = 128\<close>.\<close>

definition trSingh_threshold :: "byte list \<Rightarrow> nat \<Rightarrow> nat \<Rightarrow> number \<Rightarrow> nat \<Rightarrow> nat \<Rightarrow> number" where
  "trSingh_threshold grayscale w h p x y =
     (let st = calculateLocalStats grayscale x y w h (windowSize w h)
      in num_mul (mean st)
           (num_add (Num 1) (num_mul p (num_sub (num_div (stdDev st) (Num 128)) (Num 1)))))"

definition trSinghThreshold :: "ImageData \<Rightarrow> number \<Rightarrow> ImageData promise" where
  "trSinghThreshold imgData p =
     (let grayscale = toGrayscale imgData; w = width imgData; h = height imgData
      in inTimer (thresholdSweep grayscale w h (trSingh_threshold grayscale w h p)))"

text \<open>
  ISauvola. The first pass accumulates the samples and their squares over the whole
  buffer and then takes \<^verbatim>\<open>globalMean /= count\<close> and
  \<^verbatim>\<open>globalStdDev = Math.sqrt(globalStdDev / count - globalMean * globalMean)\<close>: the
  computation of the local statistics, over all indices. The second pass uses
  \<^verbatim>\<open>alpha = Math.max(0, Math.min(1, stdDev / globalStdDev)); dynamicK = k * (1 - alpha);
  threshold = mean * (1 + dynamicK * ((stdDev / R) - 1));\<close>
\<close>

definition globalStats :: "byte list \<Rightarrow> LocalStats" where
  "globalStats grayscale =
     statsOf (foldl (accumulate grayscale) (Num 0, Num 0, 0) (map int [0..<length grayscale]))"

definition iSauvola_threshold ::
    "byte list \<Rightarrow> nat \<Rightarrow> nat \<Rightarrow> number \<Rightarrow> number \<Rightarrow> nat \<Rightarrow> nat \<Rightarrow> number" where
  "iSauvola_threshold grayscale w h k globalStdDev x y =
     (let st = calculateLocalStats grayscale x y w h (windowSize w h);
          alpha = math_max (Num 0) (math_min (Num 1) (num_div (stdDev st) globalStdDev));
          dynamicK = num_mul k (num_sub (Num 1) alpha)
      in num_mul (mean st)
           (num_add (Num 1)
              (num_mul dynamicK (num_sub (num_div (stdDev st) (Num 128)) (Num 1)))))"

definition iSauvolaThreshold :: "ImageData \<Rightarrow> number \<Rightarrow> ImageData promise" where
  "iSauvolaThreshold imgData k =
     (let grayscale = toGrayscale imgData; w = width imgData; h = height imgData
      in inTimer
           (thresholdSweep grayscale w h
              (iSauvola_threshold grayscale w h k (stdDev (globalStats grayscale)))))"

text \<open>
  WAN. The edge map is a zero-filled \<^verbatim>\<open>Float32Array(width * height)\<close>; the Sobel
  magnitude \<^verbatim>\<open>Math.sqrt(gx*gx + gy*gy)\<close> is stored for the interior pixels
  \<open>1 \<le> x < width - 1\<close>, \<open>1 \<le> y < height - 1\<close> (the rounding to single precision of the
  store is not modelled). The threshold is
  \<^verbatim>\<open>edgeStrength = edges[y*width + x] / 255; adaptiveK = k * (1 + edgeStrength);
  threshold = mean * (1 + adaptiveK * (stdDev / 128 - 1));\<close>
\<close>

definition sobel :: "byte list \<Rightarrow> nat \<Rightarrow> nat \<Rightarrow> nat \<Rightarrow> number" where
  "sobel grayscale w x y =
     (let px = (\<lambda>dx dy. typed_get grayscale ((int y + dy) * int w + (int x + dx)));
          gx = num_add (num_add (num_add (num_add (num_add
                 (num_neg (px (- 1) (- 1)))
                 (px 1 (- 1)))
                 (num_mul (Num (- 2)) (px (- 1) 0)))
                 (num_mul (Num 2) (px 1 0)))
                 (num_neg (px (- 1) 1)))
                 (px 1 1);
          gy = num_add (num_add (num_add (num_sub (num_sub
                 (num_neg (px (- 1) (- 1)))
                 (num_mul (Num 2) (px 0 (- 1))))
                 (px 1 (- 1)))
                 (px (- 1) 1))
                 (num_mul (Num 2) (px 0 1)))
                 (px 1 1)
      in math_sqrt (num_add (num_mul gx gx) (num_mul gy gy)))"

definition edgeMap :: "byte list \<Rightarrow> nat \<Rightarrow> nat \<Rightarrow> number list" where
  "edgeMap grayscale w h =
     fold (\<lambda>y. fold (\<lambda>x edges. edges[y * w + x := sobel grayscale w x y]) [1..<w - 1])
       [1..<h - 1] (replicate (w * h) (Num 0))"

definition float_get :: "number list \<Rightarrow> nat \<Rightarrow> number" where
  "float_get a i = (if i < length a then a ! i else NaN)"

definition wan_threshold ::
    "byte list \<Rightarrow> nat \<Rightarrow> nat \<Rightarrow> number \<Rightarrow> number list \<Rightarrow> nat \<Rightarrow> nat \<Rightarrow> number" where
  "wan_threshold grayscale w h k edges x y =
     (let st = calculateLocalStats grayscale x y w h (windowSize w h);
          edgeStrength = num_div (float_get edges (y * w + x)) (Num 255);
          adaptiveK = num_mul k (num_add (Num 1) edgeStrength)
      in num_mul (mean st)
           (num_add (Num 1)
              (num_mul adaptiveK (num_sub (num_div (stdDev st) (Num 128)) (Num 1)))))"

definition wanThreshold :: "ImageData \<Rightarrow> number \<Rightarrow> ImageData promise" where
  "wanThreshold imgData k =
     (let grayscale = toGrayscale imgData; w = width imgData; h = height imgData
      in inTimer
           (thresholdSweep grayscale w h (wan_threshold grayscale w h k (edgeMap grayscale w h))))"

section \<open>Otsu's method\<close>

text \<open>
  \<^verbatim>\<open>histogram[Math.round(grayscale[i])]++\<close> over a zero-filled array of 256 bins; the
  samples are bytes, which \<^verbatim>\<open>Math.round\<close> leaves as they are.
\<close>

definition histogramOf :: "byte list \<Rightarrow> nat list" where
  "histogramOf grayscale =
     fold (\<lambda>g hist. hist[unat g := hist ! unat g + 1]) grayscale (replicate 256 0)"

text \<open>\<^verbatim>\<open>histogram.reduce((acc, val, idx) => acc + idx * val, 0)\<close>\<close>

definition weightedSum :: "nat list \<Rightarrow> int" where
  "weightedSum histogram =
     foldl (\<lambda>acc idx. acc + int idx * int (histogram ! idx)) 0 [0..<length histogram]"

text \<open>
  The between-class variance of one threshold, from the weights and the sums of the two
  classes, in double precision:
  \<^verbatim>\<open>const mB = sumB / wB; const mF = (sum - sumB) / wF;
  const variance = wB * wF * (mB - mF) * (mB - mF);\<close>
  The counts and the sums are integers, which doubles hold exactly up to \<open>2^53\<close>; the
  two quotients, the difference and the three products are rounded.
\<close>

definition classVariance :: "int \<Rightarrow> int \<Rightarrow> int \<Rightarrow> int \<Rightarrow> number" where
  "classVariance wB wF sumB sumF =
     (let mB = fl_div (Num (real_of_int sumB)) (Num (real_of_int wB));
          mF = fl_div (Num (real_of_int sumF)) (Num (real_of_int wF))
      in fl_mul (fl_mul (fl_mul (Num (real_of_int wB)) (Num (real_of_int wF))) (fl_sub mB mF))
           (fl_sub mB mF))"

text \<open>
  The search \<^verbatim>\<open>for (let t = 0; t < 256; t++)\<close>, with its \<^verbatim>\<open>continue\<close> on an empty
  background, its \<^verbatim>\<open>break\<close> on an empty foreground and the strict comparison
  \<^verbatim>\<open>variance > maxVariance\<close>. The state is \<open>sumB\<close>, \<open>wB\<close>, \<open>maxVariance\<close> and
  \<open>threshold\<close>; the result is the threshold.
\<close>

function otsu_loop ::
    "nat list \<Rightarrow> int \<Rightarrow> int \<Rightarrow> nat \<Rightarrow> int \<Rightarrow> int \<Rightarrow> number \<Rightarrow> nat \<Rightarrow> nat" where
  "otsu_loop histogram totalN wsum t sumB wB maxVariance threshold =
     (if t < 256 then
        (let wB' = wB + int (histogram ! t) in
         if wB' = 0 then otsu_loop histogram totalN wsum (t + 1) sumB wB' maxVariance threshold
         else
           (let wF = totalN - wB' in
            if wF = 0 then threshold
            else
              (let sumB' = sumB + int t * int (histogram ! t);
                   v = classVariance wB' wF sumB' (wsum - sumB')
               in if num_gt v maxVariance
                  then otsu_loop histogram totalN wsum (t + 1) sumB' wB' v t
                  else otsu_loop histogram totalN wsum (t + 1) sumB' wB' maxVariance threshold)))
      else threshold)"
  by pat_completeness auto
termination
  by (relation "measure (\<lambda>(histogram, totalN, wsum, t, sumB, wB, maxVariance, threshold). 256 - t)")
    auto

declare otsu_loop.simps [simp del]

definition otsuSearch :: "nat list \<Rightarrow> int \<Rightarrow> nat" where
  "otsuSearch histogram totalN =
     otsu_loop histogram totalN (weightedSum histogram) 0 0 0 (Num 0) 0"

definition otsuThreshold :: "ImageData \<Rightarrow> ImageData promise" where
  "otsuThreshold imgData =
     (let grayscale = toGrayscale imgData;
          histogram = histogramOf grayscale;
          threshold = otsuSearch histogram (int (length grayscale))
      in inTimer
           (applyThreshold grayscale (Num (real threshold)) (width imgData) (height imgData)))"

section \<open>The algorithm catalogue\<close>

text \<open>
  The user interface holds the eight algorithms in a table and calls the selected one as
  \<^verbatim>\<open>process(imgData, canvas, kValue)\<close>; Otsu's function takes no parameter and ignores it.
\<close>

datatype algorithm = Otsu | Niblack | Sauvola | Wolf | Nick | TRSingh | ISauvola | Wan

fun binarize :: "algorithm \<Rightarrow> ImageData \<Rightarrow> number \<Rightarrow> ImageData promise" where
  "binarize Otsu imgData k = otsuThreshold imgData"
| "binarize Niblack imgData k = niblackThreshold imgData k"
| "binarize Sauvola imgData k = sauvolaThreshold imgData k"
| "binarize Wolf imgData k = wolfThreshold imgData k"
| "binarize Nick imgData k = nickThreshold imgData k"
| "binarize TRSingh imgData k = trSinghThreshold imgData k"
| "binarize ISauvola imgData k = iSauvolaThreshold imgData k"
| "binarize Wan imgData k = wanThreshold imgData k"

text \<open>The default parameters of the function signatures (\<^verbatim>\<open>k: number = -0.2\<close> and so on).\<close>

fun defaultParameter :: "algorithm \<Rightarrow> number" where
  "defaultParameter Niblack = Num (- 2 / 10)"
| "defaultParameter Nick = Num (- 2 / 10)"
| "defaultParameter _ = Num (5 / 10)"


text \<open>
  The threshold that each algorithm compares the sample of pixel \<open>(x, y)\<close> with: the
  single global threshold for Otsu, the per-pixel formula of the sweep for the others.
\<close>

fun thresholdAt :: "algorithm \<Rightarrow> ImageData \<Rightarrow> number \<Rightarrow> nat \<Rightarrow> nat \<Rightarrow> number" where
  "thresholdAt Otsu imgData k x y =
     Num (real (otsuSearch (histogramOf (toGrayscale imgData))
       (int (length (toGrayscale imgData)))))"
| "thresholdAt Niblack imgData k x y =
     niblack_threshold (toGrayscale imgData) (width imgData) (height imgData) k x y"
| "thresholdAt Sauvola imgData k x y =
     sauvola_threshold (toGrayscale imgData) (width imgData) (height imgData) k x y"
| "thresholdAt Wolf imgData k x y =
     (case wolfPrepass (toGrayscale imgData) (width imgData) (height imgData) of
        (minVal, maxStdDev) \<Rightarrow>
          wolf_threshold (toGrayscale imgData) (width imgData) (height imgData) k
            minVal maxStdDev x y)"
| "thresholdAt Nick imgData k x y =
     nick_threshold (toGrayscale imgData) (width imgData) (height imgData) k x y"
| "thresholdAt TRSingh imgData k x y =
     trSingh_threshold (toGrayscale imgData) (width imgData) (height imgData) k x y"
| "thresholdAt ISauvola imgData k x y =
     iSauvola_threshold (toGrayscale imgData) (width imgData) (height imgData) k
       (stdDev (globalStats (toGrayscale imgData))) x y"
| "thresholdAt Wan imgData k x y =
     wan_threshold (toGrayscale imgData) (width imgData) (height imgData) k
       (edgeMap (toGrayscale imgData) (width imgData) (height imgData)) x y"

section \<open>Results about the window size\<close>

lemma ceiling_div_30: "nat \<lceil>real m / 30\<rceil> = (m + 29) div 30"
proof -
  have "\<lceil>real m / 30\<rceil> = \<lceil>real_of_int (int m) / real_of_int 30\<rceil>"
    by simp
  also have "\<dots> = - ((- int m) div 30)"
    by (simp only: ceiling_divide_eq_div)
  also have "\<dots> = (int m + 29) div 30"
    by linarith
  finally have "\<lceil>real m / 30\<rceil> = int ((m + 29) div 30)"
    by (simp add: zdiv_int)
  then show ?thesis
    by simp
qed

text \<open>
  Claim C4, as the code has it: the window size is \<open>max 3 (ceil (min w h / 30))\<close>, which
  in integer arithmetic is \<open>max 3 ((min w h + 29) div 30)\<close>. It is 3 exactly for the
  images whose smaller side is at most 90 pixels, so both boundary sizes 30 and 31 give
  a window size of 3, and 91 is the first size that gives 4.
\<close>

theorem windowSize_formula:
  "windowSize w h = max 3 ((min w h + 29) div 30)
   \<and> (windowSize w h = 3 \<longleftrightarrow> min w h \<le> 90)
   \<and> windowSize 30 30 = 3 \<and> windowSize 31 31 = 3 \<and> windowSize 91 91 = 4"
proof -
  have eq: "\<And>w h. windowSize w h = max 3 ((min w h + 29) div 30)"
    by (simp only: windowSize_def ceiling_div_30)
  have "windowSize w h = 3 \<longleftrightarrow> min w h \<le> 90"
    unfolding eq by (simp add: max_def) linarith
  moreover have "windowSize 30 30 = 3" "windowSize 31 31 = 3" "windowSize 91 91 = 4"
    unfolding eq by simp_all
  ultimately show ?thesis
    using eq by blast
qed

text \<open>
  Claim C4, as the specification words it, fails: an image of 31 by 31 pixels does not
  get a window size of 4.
\<close>

theorem windowSize_31_counterexample: "windowSize 31 31 \<noteq> 4"
  by (simp add: windowSize_def)

section \<open>Results about the local statistics\<close>

lemma windowIndices_bounds:
  assumes "i \<in> set (windowIndices x y w h hw)"
  shows "0 \<le> i \<and> i < int (w * h)"
proof -
  from assms have "\<exists>wy \<in> set [max 0 (int y - int hw)..min (int h - 1) (int y + int hw)].
      \<exists>wx \<in> set [max 0 (int x - int hw)..min (int w - 1) (int x + int hw)]. i = wy * int w + wx"
    unfolding windowIndices_def Let_def set_concat set_map by (elim UnionE imageE) (simp only: set_map, blast)
  then obtain wy wx where
    wy: "max 0 (int y - int hw) \<le> wy" "wy \<le> min (int h - 1) (int y + int hw)" and
    wx: "max 0 (int x - int hw) \<le> wx" "wx \<le> min (int w - 1) (int x + int hw)" and
    i: "i = wy * int w + wx"
    by auto
  have "0 \<le> wy" "0 \<le> wx" "wx \<le> int w - 1" "wy \<le> int h - 1"
    using wy wx by auto
  then have "0 \<le> wy * int w + wx"
    by simp
  moreover have "wy * int w + wx < int h * int w"
  proof -
    have "wy * int w \<le> (int h - 1) * int w"
      using \<open>wy \<le> int h - 1\<close> by (simp add: mult_right_mono)
    then show ?thesis
      using \<open>wx \<le> int w - 1\<close> by (simp add: algebra_simps)
  qed
  ultimately show ?thesis
    using i by (simp add: mult.commute)
qed

lemma windowIndices_center:
  assumes "x < w" "y < h"
  shows "int (y * w + x) \<in> set (windowIndices x y w h hw)"
proof -
  have "int y \<in> set [max 0 (int y - int hw)..min (int h - 1) (int y + int hw)]"
    using assms by auto
  moreover have "int x \<in> set [max 0 (int x - int hw)..min (int w - 1) (int x + int hw)]"
    using assms by auto
  ultimately show ?thesis
    unfolding windowIndices_def Let_def set_concat set_map
    by (auto intro!: bexI[of _ "int y"] image_eqI[of _ _ "int x"])
qed

lemma foldl_accumulate_count:
  "snd (snd (foldl (accumulate g) (a, b, c) idxs)) = c + length idxs"
  by (induction idxs arbitrary: a b c) (simp_all add: accumulate_def Let_def)

lemma foldl_accumulate_Num:
  assumes "\<forall>i \<in> set idxs. typed_get g i = Num (f i)"
  shows "foldl (accumulate g) (Num a, Num b, c) idxs =
    (Num (a + sum_list (map f idxs)), Num (b + sum_list (map (\<lambda>i. f i * f i) idxs)), c + length idxs)"
  using assms
  by (induction idxs arbitrary: a b c) (simp_all add: accumulate_def Let_def algebra_simps)

lemma sum_list_sq_diff:
  "sum_list (map (\<lambda>x. (a - x) * (a - x)) xs) =
     real (length xs) * (a * a) - 2 * a * sum_list xs + sum_list (map (\<lambda>x. x * x) xs)"
  by (induction xs) (simp_all add: algebra_simps)

lemma sum_list_square_le:
  "sum_list xs * sum_list xs \<le> real (length xs) * sum_list (map (\<lambda>x. x * x) xs)"
proof (induction xs)
  case Nil
  then show ?case by simp
next
  case (Cons a xs)
  have "0 \<le> sum_list (map (\<lambda>x. (a - x) * (a - x)) xs)"
    by (rule sum_list_nonneg) auto
  then have "2 * a * sum_list xs \<le> real (length xs) * (a * a) + sum_list (map (\<lambda>x. x * x) xs)"
    by (simp add: sum_list_sq_diff)
  with Cons.IH show ?case
    by (simp add: algebra_simps)
qed

lemma typed_get_in:
  "0 \<le> i \<Longrightarrow> i < int (length g) \<Longrightarrow> typed_get g i = Num (real (unat (g ! nat i)))"
  by (simp add: typed_get_def)

lemma windowSums_Num:
  assumes "length g = w * h"
  shows "windowSums g x y w h hw =
    (Num (sum_list (map (\<lambda>i. real (unat (g ! nat i))) (windowIndices x y w h hw))),
     Num (sum_list (map (\<lambda>i. real (unat (g ! nat i)) * real (unat (g ! nat i))) (windowIndices x y w h hw))),
     length (windowIndices x y w h hw))"
proof -
  have "\<forall>i \<in> set (windowIndices x y w h hw). typed_get g i = Num (real (unat (g ! nat i)))"
    using windowIndices_bounds[of _ x y w h hw] assms by (simp add: typed_get_in)
  from foldl_accumulate_Num[OF this, of 0 0 0] show ?thesis
    by (simp add: windowSums_def)
qed

lemma statsOf_Num:
  assumes "0 < n"
  shows "statsOf (Num s, Num q, n) =
    \<lparr>mean = Num (s / real n), variance = Num (q / real n - (s / real n) * (s / real n)),
     stdDev = math_sqrt (Num (q / real n - (s / real n) * (s / real n)))\<rparr>"
  using assms by (simp add: statsOf_def Let_def num_sub_def)

lemma variance_nonneg:
  assumes "0 < length xs"
  shows "0 \<le> sum_list (map (\<lambda>x. x * x) xs) / real (length xs)
      - (sum_list xs / real (length xs)) * (sum_list xs / real (length xs))"
proof -
  define n where "n = real (length xs)"
  define S where "S = sum_list xs"
  define Q where "Q = sum_list (map (\<lambda>x. x * x) xs)"
  have n: "0 < n" using assms by (simp add: n_def)
  have le: "S * S \<le> n * Q"
    unfolding S_def n_def Q_def by (rule sum_list_square_le)
  have "(S / n) * (S / n) = (S * S) / (n * n)"
    by simp
  also have "\<dots> \<le> (n * Q) / (n * n)"
    by (rule divide_right_mono[OF le]) (use n in simp)
  also have "\<dots> = Q / n"
    using n by simp
  finally show ?thesis
    unfolding S_def n_def Q_def by simp
qed

lemma window_stats:
  assumes "x < w" "y < h" "length g = w * h"
  shows "\<exists>m v. 0 \<le> v \<and> statsOf (windowSums g x y w h hw) = \<lparr>mean = Num m, variance = Num v, stdDev = Num (sqrt v)\<rparr>"
proof -
  let ?idx = "windowIndices x y w h hw"
  let ?xs = "map (\<lambda>i. real (unat (g ! nat i))) ?idx"
  define S where "S = sum_list ?xs"
  define Q where "Q = sum_list (map (\<lambda>x. x * x) ?xs)"
  define n where "n = length ?idx"
  have ne: "0 < n"
    unfolding n_def using windowIndices_center[OF assms(1,2), of hw] by (cases ?idx) auto
  have sq: "map (\<lambda>i. real (unat (g ! nat i)) * real (unat (g ! nat i))) ?idx = map (\<lambda>x. x * x) ?xs"
    by (simp add: comp_def)
  have v: "0 \<le> Q / real n - (S / real n) * (S / real n)"
    using variance_nonneg[of ?xs] ne unfolding S_def Q_def n_def by simp
  have "windowSums g x y w h hw = (Num S, Num Q, n)"
    unfolding windowSums_Num[OF assms(3)] sq S_def Q_def n_def ..
  then have "statsOf (windowSums g x y w h hw) =
     \<lparr>mean = Num (S / real n), variance = Num (Q / real n - (S / real n) * (S / real n)),
      stdDev = Num (sqrt (Q / real n - (S / real n) * (S / real n)))\<rparr>"
    using v by (simp add: statsOf_Num[OF ne])
  with v show ?thesis
    by blast
qed

text \<open>
  Claim C10: in an image of at least one pixel, the window of an in-bounds pixel is
  never empty (it holds the pixel itself, so the count is at least 1), every index the
  loops read lies inside a buffer of \<open>width * height\<close> samples (no read yields
  \<^verbatim>\<open>undefined\<close>), and the two divisions by the count give numbers.
\<close>

theorem calculateLocalStats_window_safe:
  assumes "1 \<le> w" "1 \<le> h" "x < w" "y < h" "length grayscale = w * h"
  shows "windowIndices x y w h (wSize div 2) \<noteq> []
    \<and> int (y * w + x) \<in> set (windowIndices x y w h (wSize div 2))
    \<and> snd (snd (windowSums grayscale x y w h (wSize div 2)))
        = length (windowIndices x y w h (wSize div 2))
    \<and> 1 \<le> snd (snd (windowSums grayscale x y w h (wSize div 2)))
    \<and> (\<forall>i \<in> set (windowIndices x y w h (wSize div 2)).
          0 \<le> i \<and> i < int (length grayscale) \<and> typed_get grayscale i \<noteq> NaN)
    \<and> (\<exists>m v. mean (calculateLocalStats grayscale x y w h wSize) = Num m
          \<and> variance (calculateLocalStats grayscale x y w h wSize) = Num v)"
proof -
  let ?idx = "windowIndices x y w h (wSize div 2)"
  have c: "int (y * w + x) \<in> set ?idx"
    by (rule windowIndices_center[OF assms(3,4)])
  then have ne: "?idx \<noteq> []"
    by auto
  have cnt: "snd (snd (windowSums grayscale x y w h (wSize div 2))) = length ?idx"
    by (simp add: windowSums_def foldl_accumulate_count)
  have pos: "1 \<le> length ?idx"
    using ne by (cases ?idx) auto
  have rd: "\<forall>i \<in> set ?idx. 0 \<le> i \<and> i < int (length grayscale) \<and> typed_get grayscale i \<noteq> NaN"
    using windowIndices_bounds[of _ x y w h "wSize div 2"] assms(5) by (simp add: typed_get_in)
  from window_stats[OF assms(3,4,5), of "wSize div 2"]
  have st: "\<exists>m v. mean (calculateLocalStats grayscale x y w h wSize) = Num m
          \<and> variance (calculateLocalStats grayscale x y w h wSize) = Num v"
    unfolding calculateLocalStats_def by force
  from ne c cnt pos rd st show ?thesis
    by simp
qed

theorem calculateLocalStats_window_safe_witness:
  "(1::nat) \<le> 2 \<and> (1::nat) < 2 \<and> length [10, 20, 30, 40 :: byte] = 2 * 2
   \<and> windowIndices 1 1 2 2 (3 div 2) = [0, 1, 2, 3]
   \<and> snd (snd (windowSums [10, 20, 30, 40] 1 1 2 2 (3 div 2))) = 4
   \<and> typed_get [10, 20, 30, 40] 3 \<noteq> NaN
   \<and> mean (calculateLocalStats [10, 20, 30, 40] 1 1 2 2 3) = Num 25
   \<and> variance (calculateLocalStats [10, 20, 30, 40] 1 1 2 2 3) = Num 125"
  using calculateLocalStats_window_safe[of 2 2 1 1 "[10, 20, 30, 40]" 3]
  by (simp add: windowIndices_def Let_def upto.simps windowSums_def accumulate_def typed_get_def
      calculateLocalStats_def statsOf_def num_sub_def)



section \<open>Results about rounding\<close>

lemma binade_eq:
  assumes "2 powi e \<le> \<bar>x\<bar>" "\<bar>x\<bar> < 2 powi (e + 1)"
  shows "binade x = e"
proof -
  have pos: "0 < \<bar>x\<bar>"
    using assms(1) zero_less_power_int[of "2::real" e] by linarith
  have "(2::real) powr real_of_int e = 2 powi e" "(2::real) powr (real_of_int e + 1) = 2 powi (e + 1)"
    using powr_real_of_int'[of "2::real" e] powr_real_of_int'[of "2::real" "e + 1"] by simp_all
  then have "2 powr real_of_int e \<le> \<bar>x\<bar> \<and> \<bar>x\<bar> < 2 powr (real_of_int e + 1)"
    using assms by simp
  then show ?thesis
    unfolding binade_def using floor_log_eq_powr_iff[of "\<bar>x\<bar>" 2 e] pos by simp
qed

lemma binade_bounds:
  assumes "x \<noteq> 0"
  shows "2 powi (binade x) \<le> \<bar>x\<bar>" "\<bar>x\<bar> < 2 powi (binade x + 1)"
proof -
  have pos: "0 < \<bar>x\<bar>" using assms by simp
  have "(2::real) powr real_of_int (binade x) = 2 powi (binade x)"
       "(2::real) powr (real_of_int (binade x) + 1) = 2 powi (binade x + 1)"
    using powr_real_of_int'[of "2::real" "binade x"] powr_real_of_int'[of "2::real" "binade x + 1"]
    by simp_all
  moreover have "2 powr real_of_int (binade x) \<le> \<bar>x\<bar> \<and> \<bar>x\<bar> < 2 powr (real_of_int (binade x) + 1)"
    using floor_log_eq_powr_iff[of "\<bar>x\<bar>" 2 "binade x"] pos by (simp add: binade_def)
  ultimately show "2 powi (binade x) \<le> \<bar>x\<bar>" "\<bar>x\<bar> < 2 powi (binade x + 1)"
    by simp_all
qed

lemma roundTiesToEven_near: "\<bar>real_of_int (roundTiesToEven x) - x\<bar> \<le> 1 / 2"
  unfolding roundTiesToEven_def Let_def by (auto; linarith)

lemma roundTiesToEven_int [simp]: "roundTiesToEven (real_of_int k) = k"
  by (simp add: roundTiesToEven_def)

lemma fl64_eval:
  assumes "2 powi e \<le> \<bar>x\<bar>" "\<bar>x\<bar> < 2 powi (e + 1)" "- 1022 \<le> e" "e \<le> 1022"
  shows "fl64 x = Num (real_of_int (roundTiesToEven (x / 2 powi (e - 52))) * 2 powi (e - 52))"
proof -
  define u :: real where "u = 2 powi (e - 52)"
  define n where "n = roundTiesToEven (x / u)"
  have u: "0 < u" by (simp add: u_def)
  have b: "binade x = e" by (rule binade_eq[OF assms(1,2)])
  have x0: "x \<noteq> 0"
  proof
    assume "x = 0"
    then have le: "(2::real) powi e \<le> 0" using assms(1) by simp
    have p: "(0::real) < 2 powi e" by simp
    from le p show False by linarith
  qed
  have "\<bar>real_of_int n - x / u\<bar> \<le> 1 / 2"
    unfolding n_def by (rule roundTiesToEven_near)
  then have "\<bar>real_of_int n * u - x\<bar> \<le> u / 2"
    using u by (simp add: field_simps abs_le_iff)
  then have "\<bar>real_of_int n * u\<bar> \<le> \<bar>x\<bar> + u / 2"
    by linarith
  also have "\<dots> < 2 powi (e + 1) + u / 2"
    using assms(2) by simp
  also have "\<dots> \<le> 2 powi 1023 + 2 powi 1023"
  proof -
    have "(2::real) powi (e + 1) \<le> 2 powi 1023"
      by (rule power_int_increasing) (use assms(4) in simp_all)
    moreover have "u \<le> 2 powi 1023"
      unfolding u_def by (rule power_int_increasing) (use assms(4) in simp_all)
    ultimately show ?thesis using u by linarith
  qed
  also have "\<dots> = 2 ^ 1024"
    by simp
  finally have "\<not> 2 ^ 1024 \<le> \<bar>real_of_int n * u\<bar>"
    by simp
  then show ?thesis
    unfolding fl64_def Let_def b using x0 assms(3) by (simp add: n_def u_def max_def)
qed

lemma fl64_error:
  assumes "\<bar>x\<bar> < 2 ^ 1023"
  shows "\<exists>y. fl64 x = Num y \<and> \<bar>y - x\<bar> \<le> \<bar>x\<bar> / 2 ^ 53 + 2 powi (- 1075)"
proof (cases "x = 0")
  case True
  then show ?thesis by (simp add: fl64_def)
next
  case False
  define e where "e = binade x"
  define u :: real where "u = 2 powi (max e (- 1022) - 52)"
  define n where "n = roundTiesToEven (x / u)"
  have u: "0 < u" by (simp add: u_def)
  have bx: "2 powi e \<le> \<bar>x\<bar>" "\<bar>x\<bar> < 2 powi (e + 1)"
    unfolding e_def by (rule binade_bounds[OF False])+
  have e_le: "e \<le> 1022"
  proof (rule ccontr)
    assume "\<not> e \<le> 1022"
    then have "(2::real) powi 1023 \<le> 2 powi e"
      by (intro power_int_increasing) simp_all
    with bx(1) assms show False by simp
  qed
  have uu: "u \<le> \<bar>x\<bar> / 2 ^ 52 + 2 powi (- 1074)"
  proof (cases "- 1022 \<le> e")
    case True
    then have "u = 2 powi e / 2 ^ 52"
      unfolding u_def by (simp add: max_def power_int_diff)
    also have "\<dots> \<le> \<bar>x\<bar> / 2 ^ 52"
      using bx(1) by (simp add: divide_right_mono)
    finally show ?thesis
      using zero_less_power_int[of "2::real" "- 1074"] by linarith
  next
    case False
    then have "u = 2 powi (- 1074)"
      unfolding u_def by (simp add: max_def)
    then show ?thesis by simp
  qed
  have "\<bar>real_of_int n - x / u\<bar> \<le> 1 / 2"
    unfolding n_def by (rule roundTiesToEven_near)
  then have err: "\<bar>real_of_int n * u - x\<bar> \<le> u / 2"
    using u by (simp add: field_simps abs_le_iff)
  have half: "(2::real) powi (- 1074) / 2 = 2 powi (- 1075)"
    by (simp add: power_int_diff[of "2::real" "- 1074" 1, simplified])
  have err2: "\<bar>real_of_int n * u - x\<bar> \<le> \<bar>x\<bar> / 2 ^ 53 + 2 powi (- 1075)"
  proof -
    have "u / 2 \<le> (\<bar>x\<bar> / 2 ^ 52 + 2 powi (- 1074)) / 2"
      using uu by simp
    also have "\<dots> = \<bar>x\<bar> / 2 ^ 53 + 2 powi (- 1075)"
      unfolding add_divide_distrib half by simp
    finally show ?thesis using err by linarith
  qed
  have ule: "u \<le> 2 powi 1023"
    unfolding u_def by (rule power_int_increasing) (use e_le in simp_all)
  have "\<bar>real_of_int n * u\<bar> \<le> \<bar>x\<bar> + u / 2"
    using err by linarith
  also have "\<dots> < 2 ^ 1023 + 2 powi 1023"
    using assms ule u by linarith
  also have "\<dots> = 2 ^ 1024"
    by simp
  finally have "\<not> 2 ^ 1024 \<le> \<bar>real_of_int n * u\<bar>"
    by simp
  then have "fl64 x = Num (real_of_int n * u)"
    unfolding fl64_def Let_def using False by (simp add: n_def u_def e_def)
  with err2 show ?thesis
    by blast
qed

section \<open>Results about the grayscale conversion\<close>

lemma toGrayscale_loop_length: "length (toGrayscale_loop d i gs) = length gs"
  by (induction d i gs rule: toGrayscale_loop.induct)
     (subst toGrayscale_loop.simps, simp)

lemma toGrayscale_loop_nth:
  "p < length gs \<Longrightarrow> i mod 4 = 0 \<Longrightarrow>
   toGrayscale_loop d i gs ! p =
     (if i \<le> 4 * p \<and> 4 * p < length d then toUint8Clamp (luminance d (4 * p)) else gs ! p)"
proof (induction d i gs rule: toGrayscale_loop.induct)
  case (1 d i gs)
  show ?case
  proof (cases "i < length d")
    case True
    have m: "(i + 4) mod 4 = 0"
      using "1.prems"(2) by simp
    have step: "toGrayscale_loop d i gs ! p =
        toGrayscale_loop d (i + 4) (gs[i div 4 := toUint8Clamp (luminance d i)]) ! p"
      using True by (subst toGrayscale_loop.simps) simp
    have ih: "toGrayscale_loop d (i + 4) (gs[i div 4 := toUint8Clamp (luminance d i)]) ! p =
        (if i + 4 \<le> 4 * p \<and> 4 * p < length d then toUint8Clamp (luminance d (4 * p))
         else gs[i div 4 := toUint8Clamp (luminance d i)] ! p)"
      using "1.IH"[OF True _ m] "1.prems"(1) by simp
    obtain j where j: "i = 4 * j"
      using "1.prems"(2) by (auto simp: mod_eq_0_iff_dvd elim: dvdE)
    have "4 * p = i \<or> i + 4 \<le> 4 * p \<or> 4 * p < i"
      unfolding j by (cases "p = j"; cases "p < j") auto
    then consider "4 * p = i" | "i + 4 \<le> 4 * p" | "4 * p < i"
      by blast
    then show ?thesis
    proof cases
      case 1
      then have "i div 4 = p" by simp
      with 1 True "1.prems"(1) show ?thesis
        unfolding step ih by simp
    next
      case 2
      then show ?thesis
        unfolding step ih by simp
    next
      case 3
      then have "i div 4 \<noteq> p" unfolding j by simp
      with 3 show ?thesis
        unfolding step ih by simp
    qed
  next
    case False
    then have "toGrayscale_loop d i gs = gs"
      by (subst toGrayscale_loop.simps) simp
    moreover have "\<not> (i \<le> 4 * p \<and> 4 * p < length d)"
      using False by linarith
    ultimately show ?thesis
      by auto
  qed
qed

lemma toGrayscale_length: "length (toGrayscale img) = width img * height img"
  by (simp add: toGrayscale_def toGrayscale_loop_length)

lemma toGrayscale_nth:
  "p < width img * height img \<Longrightarrow>
   toGrayscale img ! p =
     (if 4 * p < length (data img) then toUint8Clamp (luminance (data img) (4 * p)) else 0)"
  by (simp add: toGrayscale_def toGrayscale_loop_nth)

lemma byte_le_255: "unat (b :: byte) \<le> 255"
  using unsigned_less[of b, where 'a = nat] by simp

lemma byte_real_le_255: "real (unat (b :: byte)) \<le> 255"
  using byte_le_255[of b] by linarith

lemma unat_word_of_int_byte:
  "0 \<le> f \<Longrightarrow> f \<le> 255 \<Longrightarrow> real (unat (word_of_int f :: byte)) = real_of_int f"
proof -
  assume "0 \<le> f" "f \<le> 255"
  then have "unat (word_of_int f :: byte) = nat f"
    by (simp add: unsigned_of_int take_bit_int_eq_self)
  with \<open>0 \<le> f\<close> show ?thesis
    by (simp del: of_nat_unat)
qed


lemma fl64_small:
  assumes "\<bar>x\<bar> \<le> 256"
  shows "\<exists>y. fl64 x = Num y \<and> \<bar>y - x\<bar> \<le> 1 / 2 ^ 44"
proof -
  have "(2::real) ^ 8 < 2 ^ 1023"
    by (rule power_strict_increasing) simp_all
  then have "\<bar>x\<bar> < 2 ^ 1023"
    using assms by simp
  from fl64_error[OF this] obtain y where
    y: "fl64 x = Num y" "\<bar>y - x\<bar> \<le> \<bar>x\<bar> / 2 ^ 53 + 2 powi (- 1075)"
    by blast
  have "(2::real) powi (- 1075) \<le> 2 powi (- 45)"
    by (rule power_int_increasing) simp_all
  also have "\<dots> = 1 / 2 ^ 45"
    by simp
  finally have t: "(2::real) powi (- 1075) \<le> 1 / 2 ^ 45" .
  have "\<bar>x\<bar> / 2 ^ 53 \<le> 256 / 2 ^ 53"
    using assms by (simp add: divide_right_mono)
  then have "\<bar>x\<bar> / 2 ^ 53 + 2 powi (- 1075) \<le> 256 / 2 ^ 53 + 1 / 2 ^ 45"
    using t by (rule add_mono)
  also have "\<dots> \<le> 1 / 2 ^ 44"
    by simp
  finally have "\<bar>x\<bar> / 2 ^ 53 + 2 powi (- 1075) \<le> 1 / 2 ^ 44" .
  with y show ?thesis
    by (intro exI[of _ y]) simp
qed

lemma double_299: "fl64 (299 / 1000) = Num (5386305154335113 / 18014398509481984)"
  by (subst fl64_eval[where e = "- 2"]) (simp_all add: roundTiesToEven_def)

lemma double_587: "fl64 (587 / 1000) = Num (2643612981266481 / 4503599627370496)"
  by (subst fl64_eval[where e = "- 1"]) (simp_all add: roundTiesToEven_def)

lemma double_114: "fl64 (114 / 1000) = Num (8214565720323785 / 72057594037927936)"
  by (subst fl64_eval[where e = "- 4"]) (simp_all add: roundTiesToEven_def)

lemma luminance_in:
  assumes "i + 2 < length d"
  shows "luminance d i =
    fl_add (fl_add (fl_mul (Num (5386305154335113 / 18014398509481984)) (Num (real (unat (d ! i)))))
                   (fl_mul (Num (2643612981266481 / 4503599627370496)) (Num (real (unat (d ! (i + 1)))))))
           (fl_mul (Num (8214565720323785 / 72057594037927936)) (Num (real (unat (d ! (i + 2))))))"
  unfolding luminance_def double_299 double_587 double_114 Let_def
  using assms by (simp add: typed_get_def nat_add_distrib del: of_nat_unat)

lemma scaled_diff:
  fixes c k t R :: real
  assumes "\<bar>c - k\<bar> \<le> t" "0 \<le> R" "R \<le> 255"
  shows "\<bar>c * R - k * R\<bar> \<le> t * 255"
proof -
  have "c * R - k * R = (c - k) * R"
    by (simp add: algebra_simps)
  then have "\<bar>c * R - k * R\<bar> = \<bar>c - k\<bar> * R"
    using assms(2) by (simp add: abs_mult)
  also have "\<dots> \<le> t * 255"
    using assms by (intro mult_mono) simp_all
  finally show ?thesis .
qed

lemma luminance_error:
  fixes R G B :: real
  assumes "0 \<le> R" "R \<le> 255" "0 \<le> G" "G \<le> 255" "0 \<le> B" "B \<le> 255"
  shows "\<exists>Lf. fl_add (fl_add (fl_mul (Num (5386305154335113 / 18014398509481984)) (Num R))
                   (fl_mul (Num (2643612981266481 / 4503599627370496)) (Num G)))
           (fl_mul (Num (8214565720323785 / 72057594037927936)) (Num B)) = Num Lf
     \<and> \<bar>Lf - (299 / 1000 * R + 587 / 1000 * G + 114 / 1000 * B)\<bar> \<le> 1 / 10 ^ 10"
proof -
  define c1 :: real where "c1 = 5386305154335113 / 18014398509481984"
  define c2 :: real where "c2 = 2643612981266481 / 4503599627370496"
  define c3 :: real where "c3 = 8214565720323785 / 72057594037927936"
  define eps :: real where "eps = 1 / 2 ^ 44"
  have c: "\<bar>c1 - 299 / 1000\<bar> \<le> 1 / 10000000000000000" "\<bar>c2 - 587 / 1000\<bar> \<le> 1 / 10000000000000000"
          "\<bar>c3 - 114 / 1000\<bar> \<le> 1 / 10000000000000000"
    unfolding c1_def c2_def c3_def by simp_all
  have cb: "0 \<le> c1" "c1 \<le> 2991 / 10000" "0 \<le> c2" "c2 \<le> 5871 / 10000" "0 \<le> c3" "c3 \<le> 1141 / 10000"
    unfolding c1_def c2_def c3_def by simp_all
  have e: "0 < eps" "eps \<le> 1 / 10000000000000"
    unfolding eps_def by simp_all
  have b1: "0 \<le> c1 * R" "c1 * R \<le> 763 / 10"
  proof -
    show "0 \<le> c1 * R" by (rule mult_nonneg_nonneg[OF cb(1) assms(1)])
    have "c1 * R \<le> 2991 / 10000 * 255"
      by (rule mult_mono[OF cb(2) assms(2)]) (use assms in simp_all)
    then show "c1 * R \<le> 763 / 10" by simp
  qed
  have b2: "0 \<le> c2 * G" "c2 * G \<le> 1498 / 10"
  proof -
    show "0 \<le> c2 * G" by (rule mult_nonneg_nonneg[OF cb(3) assms(3)])
    have "c2 * G \<le> 5871 / 10000 * 255"
      by (rule mult_mono[OF cb(4) assms(4)]) (use assms in simp_all)
    then show "c2 * G \<le> 1498 / 10" by simp
  qed
  have b3: "0 \<le> c3 * B" "c3 * B \<le> 291 / 10"
  proof -
    show "0 \<le> c3 * B" by (rule mult_nonneg_nonneg[OF cb(5) assms(5)])
    have "c3 * B \<le> 1141 / 10000 * 255"
      by (rule mult_mono[OF cb(6) assms(6)]) (use assms in simp_all)
    then show "c3 * B \<le> 291 / 10" by simp
  qed
  have d1: "\<bar>c1 * R - 299 / 1000 * R\<bar> \<le> 1 / 10000000000000"
    using scaled_diff[OF c(1) assms(1,2)] by simp
  have d2: "\<bar>c2 * G - 587 / 1000 * G\<bar> \<le> 1 / 10000000000000"
    using scaled_diff[OF c(2) assms(3,4)] by simp
  have d3: "\<bar>c3 * B - 114 / 1000 * B\<bar> \<le> 1 / 10000000000000"
    using scaled_diff[OF c(3) assms(5,6)] by simp
  have "\<bar>c1 * R\<bar> \<le> 256" "\<bar>c2 * G\<bar> \<le> 256" "\<bar>c3 * B\<bar> \<le> 256"
    using b1 b2 b3 by linarith+
  then obtain p1 p2 p3 where
    p1: "fl64 (c1 * R) = Num p1" "\<bar>p1 - c1 * R\<bar> \<le> eps" and
    p2: "fl64 (c2 * G) = Num p2" "\<bar>p2 - c2 * G\<bar> \<le> eps" and
    p3: "fl64 (c3 * B) = Num p3" "\<bar>p3 - c3 * B\<bar> \<le> eps"
    using fl64_small[of "c1 * R"] fl64_small[of "c2 * G"] fl64_small[of "c3 * B"]
    unfolding eps_def by blast
  have "\<bar>p1 + p2\<bar> \<le> 256"
    using p1(2) p2(2) b1 b2 e by linarith
  then obtain s where s: "fl64 (p1 + p2) = Num s" "\<bar>s - (p1 + p2)\<bar> \<le> eps"
    using fl64_small[of "p1 + p2"] unfolding eps_def by blast
  have "\<bar>s + p3\<bar> \<le> 256"
    using s(2) p1(2) p2(2) p3(2) b1 b2 b3 e by linarith
  then obtain Lf where Lf: "fl64 (s + p3) = Num Lf" "\<bar>Lf - (s + p3)\<bar> \<le> eps"
    using fl64_small[of "s + p3"] unfolding eps_def by blast
  have "fl_add (fl_add (fl_mul (Num c1) (Num R)) (fl_mul (Num c2) (Num G))) (fl_mul (Num c3) (Num B))
      = Num Lf"
    by (simp add: fl_add_def fl_mul_def p1(1) p2(1) p3(1) s(1) Lf(1))
  moreover have "\<bar>Lf - (299 / 1000 * R + 587 / 1000 * G + 114 / 1000 * B)\<bar> \<le> 1 / 10000000000"
    using Lf(2) s(2) p1(2) p2(2) p3(2) d1 d2 d3 e by linarith
  then have "\<bar>Lf - (299 / 1000 * R + 587 / 1000 * G + 114 / 1000 * B)\<bar> \<le> 1 / 10 ^ 10"
    by simp
  ultimately show ?thesis
    unfolding c1_def c2_def c3_def by blast
qed


lemma toUint8Clamp_Num:
  "toUint8Clamp (Num r) = word_of_int (roundTiesToEven (min (max r 0) 255))"
  by (simp add: toUint8Clamp_def roundTiesToEven_def Let_def)

lemma roundTiesToEven_range:
  assumes "0 \<le> x" "x \<le> 255"
  shows "0 \<le> roundTiesToEven x" "roundTiesToEven x \<le> 255"
proof -
  have f: "0 \<le> \<lfloor>x\<rfloor>" "real_of_int \<lfloor>x\<rfloor> \<le> x"
    using assms(1) by simp_all
  show "0 \<le> roundTiesToEven x"
    unfolding roundTiesToEven_def Let_def using f(1) by auto
  have "\<lfloor>x\<rfloor> + 1 \<le> 255" if "real_of_int \<lfloor>x\<rfloor> + 1 / 2 \<le> x"
  proof -
    have "real_of_int \<lfloor>x\<rfloor> < 255" using that assms(2) by linarith
    then show ?thesis by linarith
  qed
  moreover have "\<lfloor>x\<rfloor> \<le> 255"
    using assms(2) f(2) by linarith
  ultimately show "roundTiesToEven x \<le> 255"
    unfolding roundTiesToEven_def Let_def by auto
qed

lemma roundTiesToEven_unique:
  assumes "\<bar>x - real_of_int k\<bar> < 1 / 2"
  shows "roundTiesToEven x = k"
proof (cases "real_of_int k \<le> x")
  case True
  then have "\<lfloor>x\<rfloor> = k"
    using assms by (intro floor_unique) linarith+
  then show ?thesis
    unfolding roundTiesToEven_def Let_def using assms True by auto
next
  case False
  have "real_of_int (k - 1) = real_of_int k - 1"
    by simp
  then have "real_of_int (k - 1) \<le> x" "x < real_of_int (k - 1) + 1"
    using assms False by linarith+
  then have "\<lfloor>x\<rfloor> = k - 1"
    by (rule floor_unique)
  then show ?thesis
    unfolding roundTiesToEven_def Let_def using assms False by auto
qed

lemma stored_value:
  "real (unat (toUint8Clamp (Num r))) = real_of_int (roundTiesToEven (min (max r 0) 255))"
proof -
  have "0 \<le> min (max r 0) 255" "min (max r 0) 255 \<le> 255"
    by simp_all
  from roundTiesToEven_range[OF this] show ?thesis
    unfolding toUint8Clamp_Num by (rule unat_word_of_int_byte)
qed

text \<open>
  Claim C5, as the code has it. The sample is stored in a \<^verbatim>\<open>Uint8ClampedArray\<close>, so
  what is kept of the luminance of a pixel is an integer (the alpha sample is never
  read). For every pixel of an image with four samples per pixel: the stored sample is
  the conversion of the double-precision luminance; that luminance is a finite number
  within \<open>10^-10\<close> of the exact sum \<open>L = 0.299 R + 0.587 G + 0.114 B\<close>; \<open>L\<close> lies in
  \<open>[0, 255]\<close>; the stored sample is within \<open>1/2 + 10^-10\<close> of \<open>L\<close>, and it equals \<open>L\<close>
  exactly when \<open>L\<close> is an integer.
\<close>

theorem toGrayscale_rounds_luminance:
  assumes "p < width imgData * height imgData"
      and "length (data imgData) = width imgData * height imgData * 4"
  defines "L \<equiv> 299 / 1000 * real (unat (data imgData ! (4 * p)))
             + 587 / 1000 * real (unat (data imgData ! (4 * p + 1)))
             + 114 / 1000 * real (unat (data imgData ! (4 * p + 2)))"
  shows "toGrayscale imgData ! p = toUint8Clamp (luminance (data imgData) (4 * p))
     \<and> (\<exists>Lf. luminance (data imgData) (4 * p) = Num Lf \<and> \<bar>Lf - L\<bar> \<le> 1 / 10 ^ 10)
     \<and> 0 \<le> L \<and> L \<le> 255
     \<and> \<bar>real (unat (toGrayscale imgData ! p)) - L\<bar> \<le> 1 / 2 + 1 / 10 ^ 10
     \<and> (real (unat (toGrayscale imgData ! p)) = L \<longleftrightarrow> L \<in> \<int>)"
proof -
  let ?R = "real (unat (data imgData ! (4 * p)))"
  let ?G = "real (unat (data imgData ! (4 * p + 1)))"
  let ?B = "real (unat (data imgData ! (4 * p + 2)))"
  have in_range: "4 * p + 2 < length (data imgData)" "4 * p < length (data imgData)"
    using assms(1,2) by simp_all
  have st: "toGrayscale imgData ! p = toUint8Clamp (luminance (data imgData) (4 * p))"
    using toGrayscale_nth[OF assms(1)] in_range(2) by simp
  have rgb: "0 \<le> ?R" "?R \<le> 255" "0 \<le> ?G" "?G \<le> 255" "0 \<le> ?B" "?B \<le> 255"
    by (rule of_nat_0_le_iff byte_real_le_255)+
  from luminance_error[OF rgb] obtain Lf where
    Lf: "luminance (data imgData) (4 * p) = Num Lf" "\<bar>Lf - L\<bar> \<le> 1 / 10 ^ 10"
    unfolding luminance_in[OF in_range(1)] L_def by blast
  have rng: "0 \<le> L" "L \<le> 255"
    unfolding L_def using rgb by linarith+
  define cl where "cl = min (max Lf 0) 255"
  define n where "n = roundTiesToEven cl"
  have sv: "real (unat (toGrayscale imgData ! p)) = real_of_int n"
    unfolding st Lf(1) n_def cl_def by (rule stored_value)
  have cl: "\<bar>cl - L\<bar> \<le> 1 / 10 ^ 10"
    unfolding cl_def using Lf(2) rng by (auto simp: min_def max_def abs_le_iff)
  have near: "\<bar>real_of_int n - cl\<bar> \<le> 1 / 2"
    unfolding n_def by (rule roundTiesToEven_near)
  have dist: "\<bar>real_of_int n - L\<bar> \<le> 1 / 2 + 1 / 10 ^ 10"
    using near cl by linarith
  have "real_of_int n = L \<longleftrightarrow> L \<in> \<int>"
  proof
    assume "real_of_int n = L"
    then have "L = real_of_int n" by simp
    then show "L \<in> \<int>" by (simp only: Ints_of_int)
  next
    assume "L \<in> \<int>"
    then obtain k where k: "L = real_of_int k" by (auto elim: Ints_cases)
    have "\<bar>cl - real_of_int k\<bar> < 1 / 2"
      using cl unfolding k by simp
    then have "n = k"
      unfolding n_def by (rule roundTiesToEven_unique)
    then show "real_of_int n = L"
      using k by simp
  qed
  with st Lf rng dist show ?thesis
    unfolding sv by blast
qed

lemma luminance_red_pixel: "luminance [1, 0, 0, 255] 0 = Num (5386305154335113 / 18014398509481984)"
proof -
  have r: "fl64 (5386305154335113 / 18014398509481984) = Num (5386305154335113 / 18014398509481984)"
    by (subst fl64_eval[where e = "- 2"]) (simp_all add: roundTiesToEven_def)
  have z: "fl64 0 = Num 0"
    by (simp add: fl64_def)
  show ?thesis
    unfolding luminance_in[of 0 "[1, 0, 0, 255]", simplified]
    by (simp add: fl_add_def fl_mul_def r z)
qed

theorem toGrayscale_rounds_luminance_witness:
  "(0::nat) < 1 * 1 \<and> length [1, 0, 0, 255 :: byte] = 1 * 1 * 4
   \<and> luminance [1, 0, 0, 255] 0 = Num (5386305154335113 / 18014398509481984)
   \<and> \<bar>real (unat (toGrayscale \<lparr>width = 1, height = 1, data = [1, 0, 0, 255]\<rparr> ! 0)) - 299 / 1000\<bar>
       \<le> 1 / 2 + 1 / 10 ^ 10"
proof -
  let ?I = "\<lparr>width = 1, height = 1, data = [1, 0, 0, 255 :: byte]\<rparr>"
  have h: "0 < width ?I * height ?I" "length (data ?I) = width ?I * height ?I * 4"
    by simp_all
  from toGrayscale_rounds_luminance[OF h]
  have "\<bar>real (unat (toGrayscale ?I ! 0))
          - (299 / 1000 * real (unat (data ?I ! (4 * 0)))
             + 587 / 1000 * real (unat (data ?I ! (4 * 0 + 1)))
             + 114 / 1000 * real (unat (data ?I ! (4 * 0 + 2))))\<bar> \<le> 1 / 2 + 1 / 10 ^ 10"
    by blast
  then have "\<bar>real (unat (toGrayscale ?I ! 0)) - 299 / 1000\<bar> \<le> 1 / 2 + 1 / 10 ^ 10"
    by simp
  then show ?thesis
    using luminance_red_pixel by simp
qed

text \<open>
  Claim C5, as stated, fails: the pixel \<open>(R, G, B) = (1, 0, 0)\<close> has luminance
  \<open>0.299\<close>, inside \<open>[0, 255]\<close>, and the stored sample is 0.
\<close>

theorem toGrayscale_not_exact_counterexample:
  "toGrayscale \<lparr>width = 1, height = 1, data = [1, 0, 0, 255]\<rparr> = [0]
   \<and> (0::real) \<le> 299 / 1000 * 1 + 587 / 1000 * 0 + 114 / 1000 * 0
   \<and> (299 / 1000 * 1 + 587 / 1000 * 0 + 114 / 1000 * 0 :: real) \<le> 255
   \<and> real (unat (toGrayscale \<lparr>width = 1, height = 1, data = [1, 0, 0, 255]\<rparr> ! 0))
       \<noteq> 299 / 1000 * 1 + 587 / 1000 * 0 + 114 / 1000 * 0"
proof -
  have c: "toUint8Clamp (Num (5386305154335113 / 18014398509481984)) = 0"
    by (simp add: toUint8Clamp_def Let_def)
  have g: "toGrayscale \<lparr>width = 1, height = 1, data = [1, 0, 0, 255]\<rparr> = [0]"
    unfolding toGrayscale_def
    by (subst toGrayscale_loop.simps, simp add: luminance_red_pixel c,
        subst toGrayscale_loop.simps, simp)
  show ?thesis
    unfolding g by simp
qed


text \<open>
  Where the exact sum lies half-way between two integers, the rounding of the doubles
  decides: the pixel \<open>(0, 80, 110)\<close> has the exact sum \<open>59.5\<close>, the doubles give
  \<open>59.49999999999999\<close>, and 59 is stored.
\<close>

lemma luminance_tie_pixel:
  "luminance [0, 80, 110, 255] 0 = Num (8373880557142015 / 140737488355328)"
proof -
  have z: "fl64 0 = Num 0"
    by (simp add: fl64_def)
  have p2: "fl64 (2643612981266481 / 4503599627370496 * 80) = Num (3304516226583101 / 70368744177664)"
    by (subst fl64_eval[where e = 5]) (simp_all add: roundTiesToEven_def)
  have s: "fl64 (3304516226583101 / 70368744177664) = Num (3304516226583101 / 70368744177664)"
    by (subst fl64_eval[where e = 5]) (simp_all add: roundTiesToEven_def)
  have p3: "fl64 (8214565720323785 / 72057594037927936 * 110) = Num (7059392415903253 / 562949953421312)"
    by (subst fl64_eval[where e = 3]) (simp_all add: roundTiesToEven_def)
  have l: "fl64 (3304516226583101 / 70368744177664 + 7059392415903253 / 562949953421312)
      = Num (8373880557142015 / 140737488355328)"
    by (subst fl64_eval[where e = 5]) (simp_all add: roundTiesToEven_def)
  have "luminance [0, 80, 110, 255] 0 =
    fl_add (fl_add (fl_mul (Num (5386305154335113 / 18014398509481984)) (Num 0))
                   (fl_mul (Num (2643612981266481 / 4503599627370496)) (Num 80)))
           (fl_mul (Num (8214565720323785 / 72057594037927936)) (Num 110))"
    using luminance_in[of 0 "[0, 80, 110, 255]"] by simp
  also have "\<dots> = Num (8373880557142015 / 140737488355328)"
    unfolding fl_add_def fl_mul_def num_mul.simps num_add.simps round64.simps
    by (simp only: mult_zero_right z p2 add_0 num_add.simps round64.simps s p3 l)
  finally show ?thesis .
qed

lemma toGrayscale_tie_pixel:
  "toGrayscale \<lparr>width = 1, height = 1, data = [0, 80, 110, 255]\<rparr> = [59]
   \<and> (299 / 1000 * 0 + 587 / 1000 * 80 + 114 / 1000 * 110 :: real) = 59 + 1 / 2"
proof -
  have c: "toUint8Clamp (Num (8373880557142015 / 140737488355328)) = 59"
    by (simp add: toUint8Clamp_def Let_def)
  have g: "toGrayscale \<lparr>width = 1, height = 1, data = [0, 80, 110, 255]\<rparr> = [59]"
    unfolding toGrayscale_def
    by (subst toGrayscale_loop.simps, simp add: luminance_tie_pixel c,
        subst toGrayscale_loop.simps, simp)
  show ?thesis
    unfolding g by simp
qed

section \<open>Results about the output image\<close>

lemma writePixel_length: "length (writePixel d a v) = length d"
  by (simp add: writePixel_def)

lemma writePixel_nth:
  assumes "i < length d"
  shows "writePixel d (p * 4) v ! i =
    (if i div 4 = p then (if i mod 4 = 3 then 255 else v) else d ! i)"
proof (cases "i div 4 = p")
  case True
  then have "i = p * 4 \<or> i = p * 4 + 1 \<or> i = p * 4 + 2 \<or> i = p * 4 + 3"
    by presburger
  moreover have "i mod 4 = 3 \<longleftrightarrow> i = p * 4 + 3"
    using True by presburger
  ultimately show ?thesis
    using assms True by (auto simp: writePixel_def nth_list_update)
next
  case False
  then have "i \<noteq> p * 4" "i \<noteq> p * 4 + 1" "i \<noteq> p * 4 + 2" "i \<noteq> p * 4 + 3"
    by presburger+
  then show ?thesis
    using assms False by (simp add: writePixel_def nth_list_update)
qed

lemma fold_writePixel_length:
  "length (fold (\<lambda>x d'. writePixel d' (g x) (f x)) xs d) = length d"
  by (induction xs arbitrary: d) (simp_all add: writePixel_length)

lemma fold_writePixel_nth:
  assumes "i < length d"
  shows "fold (\<lambda>x d'. writePixel d' ((b + x) * 4) (f x)) [0..<n] d ! i =
    (if b \<le> i div 4 \<and> i div 4 < b + n
     then (if i mod 4 = 3 then 255 else f (i div 4 - b)) else d ! i)"
proof (induction n)
  case 0
  then show ?case by auto
next
  case (Suc n)
  let ?d = "fold (\<lambda>x d'. writePixel d' ((b + x) * 4) (f x)) [0..<n] d"
  have len: "i < length ?d"
    using assms by (simp add: fold_writePixel_length)
  have "fold (\<lambda>x d'. writePixel d' ((b + x) * 4) (f x)) [0..<Suc n] d ! i
      = writePixel ?d ((b + n) * 4) (f n) ! i"
    by simp
  also have "\<dots> = (if i div 4 = b + n then (if i mod 4 = 3 then 255 else f n) else ?d ! i)"
    by (rule writePixel_nth[OF len])
  finally show ?case
    unfolding Suc.IH by (auto simp: less_Suc_eq)
qed

lemma pixelLoop_length: "length (pixelLoop w h val d) = length d"
  unfolding pixelLoop_def
  by (induction h) (simp_all add: fold_writePixel_length)

lemma pixelLoop_nth:
  assumes "i < length d"
  shows "pixelLoop w h val d ! i =
    (if i div 4 < h * w
     then (if i mod 4 = 3 then 255 else val ((i div 4) mod w) ((i div 4) div w)) else d ! i)"
proof (induction h)
  case 0
  then show ?case by (simp add: pixelLoop_def)
next
  case (Suc h)
  let ?d = "pixelLoop w h val d"
  have len: "i < length ?d"
    using assms by (simp add: pixelLoop_length)
  have row: "(\<lambda>x d'. writePixel d' ((h * w + x) * 4) (val x h))
      = (\<lambda>x d'. writePixel d' ((h * w + x) * 4) ((\<lambda>x. val x h) x))"
    by simp
  have "pixelLoop w (Suc h) val d ! i
      = fold (\<lambda>x d'. writePixel d' ((h * w + x) * 4) (val x h)) [0..<w] ?d ! i"
    by (simp add: pixelLoop_def)
  also have "\<dots> = (if h * w \<le> i div 4 \<and> i div 4 < h * w + w
       then (if i mod 4 = 3 then 255 else val (i div 4 - h * w) h) else ?d ! i)"
    by (rule fold_writePixel_nth[OF len, of "h * w" "\<lambda>x. val x h" w])
  finally have step: "pixelLoop w (Suc h) val d ! i =
      (if h * w \<le> i div 4 \<and> i div 4 < h * w + w
       then (if i mod 4 = 3 then 255 else val (i div 4 - h * w) h) else ?d ! i)" .
  show ?case
  proof (cases "h * w \<le> i div 4 \<and> i div 4 < h * w + w")
    case True
    then obtain r where r: "i div 4 = h * w + r" "r < w"
      by (metis add_diff_inverse_nat less_diff_conv2 linorder_not_less nat_add_left_cancel_less)
    then have "(i div 4) mod w = r" "(i div 4) div w = h"
      by simp_all
    with True r show ?thesis
      unfolding step by simp
  next
    case False
    then have e: "(i div 4 < Suc h * w) = (i div 4 < h * w)"
      by auto
    have "pixelLoop w (Suc h) val d ! i = ?d ! i"
      unfolding step using False by (rule if_not_P)
    then show ?thesis
      unfolding Suc.IH by (simp only: e)
  qed
qed


lemma pixelValue_binary: "pixelValue gs i t = 0 \<or> pixelValue gs i t = 255"
  by (simp add: pixelValue_def)

lemma sweep_pixel:
  assumes "p < h * w" "c < 4"
  shows "pixelLoop w h val (replicate (w * h * 4) 0) ! (4 * p + c) =
    (if c = 3 then 255 else val (p mod w) (p div w))"
proof -
  have d: "(4 * p + c) div 4 = p" "(4 * p + c) mod 4 = c"
    using assms(2) by simp_all
  have "4 * p + c < h * w * 4"
    using assms by linarith
  then have "4 * p + c < length (replicate (w * h * 4) (0::byte))"
    by (simp add: mult.commute)
  from pixelLoop_nth[OF this, of w h val] show ?thesis
    unfolding d using assms(1) by simp
qed

lemma thresholdSweep_pixels:
  assumes "0 < w" "0 < h"
  shows "\<exists>out. thresholdSweep gs w h thr = Inr out \<and> width out = w \<and> height out = h
    \<and> length (data out) = w * h * 4
    \<and> (\<forall>p < w * h. data out ! (4 * p) = pixelValue gs p (thr (p mod w) (p div w))
          \<and> data out ! (4 * p + 1) = pixelValue gs p (thr (p mod w) (p div w))
          \<and> data out ! (4 * p + 2) = pixelValue gs p (thr (p mod w) (p div w))
          \<and> data out ! (4 * p + 3) = 255)"
proof -
  let ?val = "\<lambda>x y. pixelValue gs (y * w + x) (thr x y)"
  let ?out = "\<lparr>width = w, height = h, data = pixelLoop w h ?val (replicate (w * h * 4) 0)\<rparr>"
  have r: "thresholdSweep gs w h thr = Inr ?out"
    using assms by (simp add: thresholdSweep_def newImageData_def)
  have px: "data ?out ! (4 * p + c) = (if c = 3 then 255 else pixelValue gs p (thr (p mod w) (p div w)))"
    if "p < w * h" "c < 4" for p c
  proof -
    have "p < h * w" using that(1) by (simp add: mult.commute)
    from sweep_pixel[OF this that(2), of ?val] show ?thesis
      by simp
  qed
  have "\<forall>p < w * h. data ?out ! (4 * p) = pixelValue gs p (thr (p mod w) (p div w))
          \<and> data ?out ! (4 * p + 1) = pixelValue gs p (thr (p mod w) (p div w))
          \<and> data ?out ! (4 * p + 2) = pixelValue gs p (thr (p mod w) (p div w))
          \<and> data ?out ! (4 * p + 3) = 255"
    using px[of _ 0] px[of _ 1] px[of _ 2] px[of _ 3] by simp
  with r show ?thesis
    by (intro exI[of _ ?out]) (simp add: pixelLoop_length)
qed

lemma applyThreshold_pixels:
  assumes "0 < w" "0 < h" "length gs = w * h"
  shows "\<exists>out. applyThreshold gs t w h = Inr out \<and> width out = w \<and> height out = h
    \<and> length (data out) = w * h * 4
    \<and> (\<forall>p < w * h. data out ! (4 * p) = pixelValue gs p t
          \<and> data out ! (4 * p + 1) = pixelValue gs p t
          \<and> data out ! (4 * p + 2) = pixelValue gs p t
          \<and> data out ! (4 * p + 3) = 255)"
proof -
  let ?f = "\<lambda>i. pixelValue gs i t"
  let ?d = "fold (\<lambda>i d'. writePixel d' (i * 4) (?f i)) [0..<length gs] (replicate (w * h * 4) 0)"
  let ?out = "\<lparr>width = w, height = h, data = ?d\<rparr>"
  have r: "applyThreshold gs t w h = Inr ?out"
    using assms by (simp add: applyThreshold_def newImageData_def)
  have px: "?d ! (4 * p + c) = (if c = 3 then 255 else ?f p)" if "p < w * h" "c < 4" for p c
  proof -
    have d: "(4 * p + c) div 4 = p" "(4 * p + c) mod 4 = c"
      using that(2) by simp_all
    have "4 * p + c < w * h * 4"
      using that by linarith
    then have len: "4 * p + c < length (replicate (w * h * 4) (0::byte))"
      by simp
    from fold_writePixel_nth[OF len, of 0 ?f "length gs"] show ?thesis
      unfolding d using that(1) assms(3) by simp
  qed
  have "\<forall>p < w * h. data ?out ! (4 * p) = ?f p \<and> data ?out ! (4 * p + 1) = ?f p
          \<and> data ?out ! (4 * p + 2) = ?f p \<and> data ?out ! (4 * p + 3) = 255"
    using px[of _ 0] px[of _ 1] px[of _ 2] px[of _ 3] by simp
  with r show ?thesis
    by (intro exI[of _ ?out]) (simp add: fold_writePixel_length)
qed

lemma binarize_pixels:
  assumes "0 < width imgData" "0 < height imgData"
  shows "\<exists>out. binarize a imgData k = Fulfilled out
    \<and> width out = width imgData \<and> height out = height imgData
    \<and> length (data out) = width imgData * height imgData * 4
    \<and> (\<forall>p < width imgData * height imgData.
          data out ! (4 * p) = pixelValue (toGrayscale imgData) p
              (thresholdAt a imgData k (p mod width imgData) (p div width imgData))
          \<and> data out ! (4 * p + 1) = data out ! (4 * p)
          \<and> data out ! (4 * p + 2) = data out ! (4 * p)
          \<and> data out ! (4 * p + 3) = 255)"
proof -
  let ?w = "width imgData" and ?h = "height imgData" and ?gs = "toGrayscale imgData"
  have sweep: "\<exists>out. inTimer (thresholdSweep ?gs ?w ?h thr) = Fulfilled out
    \<and> width out = ?w \<and> height out = ?h \<and> length (data out) = ?w * ?h * 4
    \<and> (\<forall>p < ?w * ?h. data out ! (4 * p) = pixelValue ?gs p (thr (p mod ?w) (p div ?w))
          \<and> data out ! (4 * p + 1) = data out ! (4 * p)
          \<and> data out ! (4 * p + 2) = data out ! (4 * p)
          \<and> data out ! (4 * p + 3) = 255)" for thr
  proof -
    from thresholdSweep_pixels[OF assms, of ?gs thr] obtain out where
      o: "thresholdSweep ?gs ?w ?h thr = Inr out \<and> width out = ?w \<and> height out = ?h
        \<and> length (data out) = ?w * ?h * 4
        \<and> (\<forall>p < ?w * ?h. data out ! (4 * p) = pixelValue ?gs p (thr (p mod ?w) (p div ?w))
          \<and> data out ! (4 * p + 1) = pixelValue ?gs p (thr (p mod ?w) (p div ?w))
          \<and> data out ! (4 * p + 2) = pixelValue ?gs p (thr (p mod ?w) (p div ?w))
          \<and> data out ! (4 * p + 3) = 255)"
      by blast
    show ?thesis
      by (rule exI[of _ out]) (use o in \<open>simp add: inTimer_def\<close>)
  qed
  show ?thesis
  proof (cases a)
    case Otsu
    let ?t = "Num (real (otsuSearch (histogramOf ?gs) (int (length ?gs))))"
    from applyThreshold_pixels[OF assms toGrayscale_length, of ?t] obtain out where
      o: "applyThreshold ?gs ?t ?w ?h = Inr out \<and> width out = ?w \<and> height out = ?h
        \<and> length (data out) = ?w * ?h * 4
        \<and> (\<forall>p < ?w * ?h. data out ! (4 * p) = pixelValue ?gs p ?t
          \<and> data out ! (4 * p + 1) = pixelValue ?gs p ?t
          \<and> data out ! (4 * p + 2) = pixelValue ?gs p ?t
          \<and> data out ! (4 * p + 3) = 255)"
      by blast
    show ?thesis
      unfolding Otsu binarize.simps thresholdAt.simps otsuThreshold_def Let_def
      by (rule exI[of _ out]) (use o in \<open>simp add: inTimer_def\<close>)
  next
    case Niblack
    show ?thesis
      unfolding Niblack binarize.simps thresholdAt.simps niblackThreshold_def Let_def by (rule sweep)
  next
    case Sauvola
    show ?thesis
      unfolding Sauvola binarize.simps thresholdAt.simps sauvolaThreshold_def Let_def by (rule sweep)
  next
    case Wolf
    show ?thesis
      unfolding Wolf binarize.simps thresholdAt.simps wolfThreshold_def Let_def
      by (cases "wolfPrepass ?gs ?w ?h") (simp only: prod.case sweep)
  next
    case Nick
    show ?thesis
      unfolding Nick binarize.simps thresholdAt.simps nickThreshold_def Let_def by (rule sweep)
  next
    case TRSingh
    show ?thesis
      unfolding TRSingh binarize.simps thresholdAt.simps trSinghThreshold_def Let_def by (rule sweep)
  next
    case ISauvola
    show ?thesis
      unfolding ISauvola binarize.simps thresholdAt.simps iSauvolaThreshold_def Let_def by (rule sweep)
  next
    case Wan
    show ?thesis
      unfolding Wan binarize.simps thresholdAt.simps wanThreshold_def Let_def by (rule sweep)
  qed
qed


text \<open>
  Claim C6: for each of the eight algorithms, every parameter and every image of at least
  one pixel with four samples per pixel, the promise is fulfilled with an image of the
  same width and height whose every pixel has R = G = B, equal to 0 or to 255, and
  alpha 255.
\<close>

theorem binarize_output_binary:
  assumes "1 \<le> width imgData" "1 \<le> height imgData"
      and "length (data imgData) = width imgData * height imgData * 4"
  shows "\<exists>out. binarize a imgData k = Fulfilled out
    \<and> width out = width imgData \<and> height out = height imgData
    \<and> length (data out) = width imgData * height imgData * 4
    \<and> (\<forall>p < width imgData * height imgData.
          (data out ! (4 * p) = 0 \<or> data out ! (4 * p) = 255)
          \<and> data out ! (4 * p + 1) = data out ! (4 * p)
          \<and> data out ! (4 * p + 2) = data out ! (4 * p)
          \<and> data out ! (4 * p + 3) = 255)"
proof -
  have pos: "0 < width imgData" "0 < height imgData"
    using assms(1,2) by simp_all
  from binarize_pixels[OF pos, of a k] obtain out where
    r: "binarize a imgData k = Fulfilled out" "width out = width imgData"
       "height out = height imgData"
       "length (data out) = width imgData * height imgData * 4" and
    px: "\<forall>p < width imgData * height imgData.
          data out ! (4 * p) = pixelValue (toGrayscale imgData) p
              (thresholdAt a imgData k (p mod width imgData) (p div width imgData))
          \<and> data out ! (4 * p + 1) = data out ! (4 * p)
          \<and> data out ! (4 * p + 2) = data out ! (4 * p)
          \<and> data out ! (4 * p + 3) = 255"
    by blast
  have "\<forall>p < width imgData * height imgData.
          (data out ! (4 * p) = 0 \<or> data out ! (4 * p) = 255)
          \<and> data out ! (4 * p + 1) = data out ! (4 * p)
          \<and> data out ! (4 * p + 2) = data out ! (4 * p)
          \<and> data out ! (4 * p + 3) = 255"
    using px pixelValue_binary by simp
  with r show ?thesis
    by blast
qed

theorem binarize_output_binary_witness:
  "1 \<le> width \<lparr>width = 1, height = 1, data = [10, 20, 30, 255]\<rparr>
   \<and> 1 \<le> height \<lparr>width = 1, height = 1, data = [10, 20, 30, 255]\<rparr>
   \<and> length (data \<lparr>width = 1, height = 1, data = [10, 20, 30, 255]\<rparr>) = 1 * 1 * 4
   \<and> (\<exists>out. binarize Niblack \<lparr>width = 1, height = 1, data = [10, 20, 30, 255]\<rparr> (Num (- 2 / 10))
          = Fulfilled out
        \<and> width out = 1 \<and> height out = 1 \<and> length (data out) = 4
        \<and> (data out ! 0 = 0 \<or> data out ! 0 = 255)
        \<and> data out ! 1 = data out ! 0 \<and> data out ! 2 = data out ! 0 \<and> data out ! 3 = 255)"
proof -
  let ?I = "\<lparr>width = 1, height = 1, data = [10, 20, 30, 255 :: byte]\<rparr>"
  have h: "1 \<le> width ?I" "1 \<le> height ?I" "length (data ?I) = width ?I * height ?I * 4"
    by simp_all
  from binarize_output_binary[OF h, of Niblack "Num (- 2 / 10)"] obtain out where
    r: "binarize Niblack ?I (Num (- 2 / 10)) = Fulfilled out" "width out = 1" "height out = 1"
       "length (data out) = 4" and
    px: "\<forall>p < width ?I * height ?I.
          (data out ! (4 * p) = 0 \<or> data out ! (4 * p) = 255)
          \<and> data out ! (4 * p + 1) = data out ! (4 * p)
          \<and> data out ! (4 * p + 2) = data out ! (4 * p)
          \<and> data out ! (4 * p + 3) = 255"
    by auto
  from px have "(data out ! 0 = 0 \<or> data out ! 0 = 255)
        \<and> data out ! 1 = data out ! 0 \<and> data out ! 2 = data out ! 0 \<and> data out ! 3 = 255"
    by (simp add: eval_nat_numeral)
  with r h show ?thesis
    by (intro conjI exI[of _ out]) simp_all
qed

section \<open>Results about rasters with missing samples\<close>














end
